theory Spec2Isabelle
  imports Complex_Main
begin

section \<open>GP regression notebook: data model\<close>

text \<open>
  The notebook works on numpy arrays of doubles. Arithmetic is idealised to the reals;
  the one float value the code itself tests for, NaN (a missing RSS reading), is kept:
  an array entry that may be NaN is a \<open>real option\<close>, with \<open>None\<close> for NaN.
  A two-dimensional array is the list of its rows. Every exception the cells can raise
  is a value of \<open>error\<close>, and a computation that can raise returns \<open>error + 'a\<close>.
\<close>

type_synonym pyfloat = "real option"

type_synonym point = "real \<times> real"

datatype error = ValueError | LinAlgError | IndexError

definition bind :: "error + 'a \<Rightarrow> ('a \<Rightarrow> error + 'b) \<Rightarrow> error + 'b" where
  "bind r f = (case r of Inl e \<Rightarrow> Inl e | Inr a \<Rightarrow> f a)"

text \<open>\<open>xs[i]\<close> for \<open>i\<close> from a \<open>range\<close>: IndexError out of range.\<close>

definition getitem :: "'a list \<Rightarrow> nat \<Rightarrow> error + 'a" where
  "getitem xs i = (if i < length xs then Inr (xs ! i) else Inl IndexError)"

text \<open>\<open>a[p, k]\<close> on a two-dimensional array.\<close>

definition getitem2 :: "'a list list \<Rightarrow> nat \<Rightarrow> nat \<Rightarrow> error + 'a" where
  "getitem2 a p k = bind (getitem a p) (\<lambda>row. getitem row k)"

subsection \<open>Library functions the cells call\<close>

text \<open>\<open>math.sqrt\<close>: a negative argument raises ValueError (math domain error).\<close>

definition math_sqrt :: "real \<Rightarrow> error + real" where
  "math_sqrt v = (if v < 0 then Inl ValueError else Inr (sqrt v))"

text \<open>
  Modelled from the spec: the statistical density function for scalar Gaussian
  log-probability evaluation (section 6), which is
  \<open>scipy.stats.multivariate_normal.logpdf(x, mean, cov)\<close>, a third-party function
  that is not part of the repository's sources. Its third positional parameter is the
  covariance: for scalars, the variance of the Gaussian. With the default
  \<open>allow_singular=False\<close> a negative covariance raises ValueError and a zero one
  LinAlgError (singular matrix). The value is
  \<open>-(log(2 pi) + log cov + (x - mean)^2 / cov) / 2\<close>.
\<close>

definition multivariate_normal_logpdf :: "real \<Rightarrow> real \<Rightarrow> real \<Rightarrow> error + real" where
  "multivariate_normal_logpdf x mean cov =
     (if cov < 0 then Inl ValueError
      else if cov = 0 then Inl LinAlgError
      else Inr (- (ln (2 * pi) + ln cov + (x - mean)\<^sup>2 / cov) / 2))"

text \<open>
  \<open>np.argmax\<close> on a one-dimensional array: ValueError on an empty array, otherwise the
  index of the first occurrence of the maximum. \<open>argmax_loop\<close> scans the rest of the
  array with the next index, the best index so far and its value.
\<close>

fun argmax_loop :: "real list \<Rightarrow> nat \<Rightarrow> nat \<Rightarrow> real \<Rightarrow> nat" where
  "argmax_loop [] i best bv = best"
| "argmax_loop (y # ys) i best bv =
     (if bv < y then argmax_loop ys (Suc i) i y else argmax_loop ys (Suc i) best bv)"

definition np_argmax :: "real list \<Rightarrow> error + nat" where
  "np_argmax xs = (case xs of [] \<Rightarrow> Inl ValueError | x # rest \<Rightarrow> Inr (argmax_loop rest 1 0 x))"

section \<open>The search grid\<close>

text \<open>
  \<^verbatim>\<open>
    min_X, min_Y, max_X, max_Y = [np.amin(Y[0]), np.amin(Y[1]), np.amax(Y[0]), np.max(Y[1])]
    N = 50
    mesh = np.meshgrid(np.linspace(min_X, max_X, N), np.linspace(min_Y, max_Y, N))
    grid = np.array([mesh[0].reshape(N*N,1), mesh[1].reshape(N*N,1)]).squeeze().T
  \<close>
  \<open>Y\<close> is the location matrix, one row per coordinate and one column per surveyed
  location. \<open>np.amin\<close> and \<open>np.amax\<close> raise ValueError on an empty array.
  \<open>np.linspace(start, stop, num)\<close> is \<open>start + i * step\<close> for \<open>i\<close> in
  \<open>range(num)\<close> with \<open>step = (stop - start) / (num - 1)\<close>. \<open>np.meshgrid(xs, ys)\<close>
  gives two arrays of shape \<open>(len(ys), len(xs))\<close>, the first repeating \<open>xs\<close> in each
  row and the second holding \<open>ys[j]\<close> all along row \<open>j\<close>; \<open>reshape\<close> flattens them
  row by row, and row \<open>i\<close> of \<open>grid\<close> pairs the two flattened entries at \<open>i\<close>.
\<close>

definition np_amin :: "real list \<Rightarrow> error + real" where
  "np_amin xs = (case xs of [] \<Rightarrow> Inl ValueError | x # rest \<Rightarrow> Inr (fold min rest x))"

definition np_amax :: "real list \<Rightarrow> error + real" where
  "np_amax xs = (case xs of [] \<Rightarrow> Inl ValueError | x # rest \<Rightarrow> Inr (fold max rest x))"

definition np_linspace :: "real \<Rightarrow> real \<Rightarrow> nat \<Rightarrow> real list" where
  "np_linspace start stop num =
     map (\<lambda>i. start + real i * ((stop - start) / real (num - 1))) [0..<num]"

definition np_meshgrid :: "real list \<Rightarrow> real list \<Rightarrow> real list list \<times> real list list" where
  "np_meshgrid xs ys = (map (\<lambda>y. xs) ys, map (\<lambda>y. map (\<lambda>x. y) xs) ys)"

definition N :: nat where
  "N = 50"

definition make_grid :: "real \<Rightarrow> real \<Rightarrow> real \<Rightarrow> real \<Rightarrow> point list" where
  "make_grid min_X min_Y max_X max_Y =
     (let mesh = np_meshgrid (np_linspace min_X max_X N) (np_linspace min_Y max_Y N)
      in zip (concat (fst mesh)) (concat (snd mesh)))"

definition search_grid :: "real list list \<Rightarrow> error + point list" where
  "search_grid Y =
     bind (getitem Y 0) (\<lambda>Y0.
     bind (np_amin Y0) (\<lambda>min_X.
     bind (getitem Y 1) (\<lambda>Y1.
     bind (np_amin Y1) (\<lambda>min_Y.
     bind (np_amax Y0) (\<lambda>max_X.
     bind (np_amax Y1) (\<lambda>max_Y.
     Inr (make_grid min_X min_Y max_X max_Y)))))))"

section \<open>Averaging the repeated scans\<close>

text \<open>
  \<^verbatim>\<open>
    X_mean = np.zeros((num_AP, num_loc))
    for i in range(num_loc):
        num_scans = X_raw[i].shape[1]
        X_mean[:,i] = np.nanmean(X_raw[i][:,0:num_scans],axis=1)
    X_mean = X_mean.T # The shape of X_mean is num_loc * num_AP
  \<close>
  \<open>X_raw[i]\<close> is the array of location \<open>i\<close>: one row per AP, one column per scan.
\<close>

text \<open>
  Modelled from the spec: averaging repeated RSS scans, with missing readings excluded
  pointwise and never imputed, which is \<open>np.nanmean\<close> of numpy (not part of the
  repository's sources) along one row: the mean of the entries that are not NaN, and NaN
  (with the warning "Mean of empty slice" that the notebook's output shows) when there is
  none.
\<close>

definition np_nanmean :: "pyfloat list \<Rightarrow> pyfloat" where
  "np_nanmean xs =
     (let vs = map the (filter (\<lambda>x. x \<noteq> None) xs)
      in if vs = [] then None else Some (sum_list vs / real (length vs)))"

text \<open>
  The assignment \<open>X_mean[:,i] = v\<close> into a column of length \<open>num_AP\<close>: \<open>v\<close> must
  have that length, or length 1 (it is then broadcast); otherwise ValueError.
\<close>

definition assign_column :: "nat \<Rightarrow> 'a list \<Rightarrow> error + 'a list" where
  "assign_column num_AP v =
     (if length v = num_AP then Inr v
      else if length v = 1 then Inr (replicate num_AP (v ! 0))
      else Inl ValueError)"

text \<open>The loop over the locations; the result is the list of the columns written.\<close>

fun X_mean_loop :: "nat \<Rightarrow> pyfloat list list list \<Rightarrow> nat list \<Rightarrow> error + pyfloat list list" where
  "X_mean_loop num_AP X_raw [] = Inr []"
| "X_mean_loop num_AP X_raw (i # rest) =
     bind (getitem X_raw i) (\<lambda>scans.
     bind (assign_column num_AP (map np_nanmean scans)) (\<lambda>col.
     bind (X_mean_loop num_AP X_raw rest) (\<lambda>cols.
     Inr (col # cols))))"

text \<open>
  After the transposition, row \<open>i\<close> of \<open>X_mean\<close> is the column written for location
  \<open>i\<close>.
\<close>

definition compute_X_mean :: "nat \<Rightarrow> nat \<Rightarrow> pyfloat list list list \<Rightarrow> error + pyfloat list list" where
  "compute_X_mean num_AP num_loc X_raw = X_mean_loop num_AP X_raw [0..<num_loc]"

section \<open>Fitting one regressor per access point\<close>

text \<open>
  \<^verbatim>\<open>
    GP = []
    GP_index = []
    for i in range(num_AP):
        X = X_train[~np.isnan(Y_train[:,i])]
        Y_AP = Y_train[:,i]
        Y_AP = Y_AP[~np.isnan(Y_AP)]
        Y_AP = np.reshape(Y_AP,(Y_AP.shape[0],1))
        if(X.shape[0] > 10):
            kernel = GPy.kern.RBF(input_dim=2,lengthscale =10)
            m = GPy.models.GPRegression(X,Y_AP,kernel)
            m.optimize(messages=False,max_f_eval = 1000)
            GP.append(m)
            GP_index.append(i)
  \<close>
  \<open>X_train\<close> holds the coordinates and \<open>Y_train\<close> the averaged RSS (the notebook
  swaps the usual names). Building and optimising the GPy model is the parameter
  \<open>GPRegression\<close>, from the selected coordinates and readings to a fitted model.
\<close>

text \<open>\<open>a[:,i]\<close>.\<close>

definition column :: "'a list list \<Rightarrow> nat \<Rightarrow> error + 'a list" where
  "column a i =
     (if \<forall>row\<in>set a. i < length row then Inr (map (\<lambda>row. row ! i) a) else Inl IndexError)"

text \<open>\<open>a[mask]\<close> for a boolean mask: IndexError when the lengths differ.\<close>

definition mask_rows :: "'a list \<Rightarrow> bool list \<Rightarrow> error + 'a list" where
  "mask_rows a keep =
     (if length keep = length a then Inr (map fst (filter snd (zip a keep)))
      else Inl IndexError)"

fun fit_loop ::
  "(point list \<Rightarrow> real list \<Rightarrow> 'gp) \<Rightarrow> point list \<Rightarrow> pyfloat list list \<Rightarrow> nat list
     \<Rightarrow> 'gp list \<Rightarrow> nat list \<Rightarrow> error + ('gp list \<times> nat list)" where
  "fit_loop GPRegression X_train Y_train [] GP GP_index = Inr (GP, GP_index)"
| "fit_loop GPRegression X_train Y_train (i # rest) GP GP_index =
     bind (column Y_train i) (\<lambda>col.
     bind (mask_rows X_train (map (\<lambda>y. y \<noteq> None) col)) (\<lambda>X.
       let Y_AP = map the (filter (\<lambda>y. y \<noteq> None) col)
       in if length X > 10
          then fit_loop GPRegression X_train Y_train rest
                 (GP @ [GPRegression X Y_AP]) (GP_index @ [i])
          else fit_loop GPRegression X_train Y_train rest GP GP_index))"

definition fit_GPs ::
  "(point list \<Rightarrow> real list \<Rightarrow> 'gp) \<Rightarrow> point list \<Rightarrow> pyfloat list list \<Rightarrow> nat
     \<Rightarrow> error + ('gp list \<times> nat list)" where
  "fit_GPs GPRegression X_train Y_train num_AP =
     fit_loop GPRegression X_train Y_train [0..<num_AP] [] []"

section \<open>Predictions on the grid\<close>

text \<open>
  \<^verbatim>\<open>
    GP_num = len(GP)
    mean = np.zeros([grid.shape[0],GP_num])
    var = np.zeros([grid.shape[0],GP_num])
    for i in range(GP_num):
        result = GP[i].predict(grid)
        mean[:,i] = result[0].reshape((grid.shape[0],))
        var[:,i] = result[1].reshape((grid.shape[0],))
  \<close>
  \<open>predict\<close> is GPy's, a parameter: the predicted means and variances of a model at the
  given points. \<open>reshape\<close> raises ValueError when the size is not the number of grid
  points. The loop collects the columns; \<open>predict_grid\<close> returns the two arrays by rows.
\<close>

fun predict_loop ::
  "('gp \<Rightarrow> point list \<Rightarrow> real list \<times> real list) \<Rightarrow> 'gp list \<Rightarrow> point list
     \<Rightarrow> error + (real list \<times> real list) list" where
  "predict_loop predict [] grid = Inr []"
| "predict_loop predict (m # ms) grid =
     (let result = predict m grid
      in if length (fst result) \<noteq> length grid \<or> length (snd result) \<noteq> length grid
         then Inl ValueError
         else bind (predict_loop predict ms grid) (\<lambda>cols. Inr (result # cols)))"

definition predict_grid ::
  "('gp \<Rightarrow> point list \<Rightarrow> real list \<times> real list) \<Rightarrow> 'gp list \<Rightarrow> point list
     \<Rightarrow> error + (real list list \<times> real list list)" where
  "predict_grid predict GP grid =
     bind (predict_loop predict GP grid) (\<lambda>cols.
     Inr (map (\<lambda>p. map (\<lambda>c. fst c ! p) cols) [0..<length grid],
          map (\<lambda>p. map (\<lambda>c. snd c ! p) cols) [0..<length grid]))"

section \<open>The MAP grid scorer\<close>

text \<open>
  \<^verbatim>\<open>
    num_test = X_test.shape[0]
    Y_hat = np.zeros([num_test,2])
    for num in range(num_test):
        sum = np.zeros(grid.shape[0])
        for p in range(grid.shape[0]):
            for k in range(GP_num):
                RSS = Y_test[num,GP_index[k]]
                if (~np.isnan(RSS)):
                    sum[p] += scipy.stats.multivariate_normal.logpdf(RSS,mean[p,k],math.sqrt(var[p,k]))
        max_index = np.argmax(sum)
        Y_hat[num] = grid[max_index]
  \<close>
  \<open>GP_num\<close> is \<open>len(GP)\<close>; \<open>GP\<close> and \<open>GP_index\<close> are appended to together, so it is
  the length of \<open>GP_index\<close>.
\<close>

text \<open>The body of the loop over \<open>k\<close>, on the running value \<open>acc\<close> of \<open>sum[p]\<close>.\<close>

definition add_logpdf ::
  "pyfloat list list \<Rightarrow> nat \<Rightarrow> nat list \<Rightarrow> real list list \<Rightarrow> real list list \<Rightarrow> nat \<Rightarrow> nat
     \<Rightarrow> real \<Rightarrow> error + real" where
  "add_logpdf Y_test num GP_index mean var p k acc =
     bind (getitem GP_index k) (\<lambda>a.
     bind (getitem2 Y_test num a) (\<lambda>RSS.
       case RSS of
         None \<Rightarrow> Inr acc
       | Some r \<Rightarrow>
           bind (getitem2 mean p k) (\<lambda>m.
           bind (getitem2 var p k) (\<lambda>v.
           bind (math_sqrt v) (\<lambda>s.
           bind (multivariate_normal_logpdf r m s) (\<lambda>l.
           Inr (acc + l)))))))"

text \<open>The loop over \<open>k\<close>.\<close>

fun sum_logpdf ::
  "pyfloat list list \<Rightarrow> nat \<Rightarrow> nat list \<Rightarrow> real list list \<Rightarrow> real list list \<Rightarrow> nat
     \<Rightarrow> nat list \<Rightarrow> real \<Rightarrow> error + real" where
  "sum_logpdf Y_test num GP_index mean var p [] acc = Inr acc"
| "sum_logpdf Y_test num GP_index mean var p (k # ks) acc =
     bind (add_logpdf Y_test num GP_index mean var p k acc)
       (\<lambda>acc'. sum_logpdf Y_test num GP_index mean var p ks acc')"

text \<open>The loop over \<open>p\<close>: the array \<open>sum\<close>, one entry per grid point, each started at 0.\<close>

fun score_grid ::
  "pyfloat list list \<Rightarrow> nat \<Rightarrow> nat list \<Rightarrow> real list list \<Rightarrow> real list list \<Rightarrow> nat list
     \<Rightarrow> error + real list" where
  "score_grid Y_test num GP_index mean var [] = Inr []"
| "score_grid Y_test num GP_index mean var (p # ps) =
     bind (sum_logpdf Y_test num GP_index mean var p [0..<length GP_index] 0) (\<lambda>s.
     bind (score_grid Y_test num GP_index mean var ps) (\<lambda>rest.
     Inr (s # rest)))"

text \<open>One pass of the loop over \<open>num\<close>: the row written to \<open>Y_hat[num]\<close>.\<close>

definition MAP_scorer ::
  "pyfloat list list \<Rightarrow> nat \<Rightarrow> nat list \<Rightarrow> real list list \<Rightarrow> real list list \<Rightarrow> point list
     \<Rightarrow> error + point" where
  "MAP_scorer Y_test num GP_index mean var grid =
     bind (score_grid Y_test num GP_index mean var [0..<length grid]) (\<lambda>sum.
     bind (np_argmax sum) (\<lambda>max_index.
     getitem grid max_index))"

text \<open>The loop over \<open>num\<close>.\<close>

fun Y_hat_loop ::
  "pyfloat list list \<Rightarrow> nat list \<Rightarrow> real list list \<Rightarrow> real list list \<Rightarrow> point list \<Rightarrow> nat list
     \<Rightarrow> error + point list" where
  "Y_hat_loop Y_test GP_index mean var grid [] = Inr []"
| "Y_hat_loop Y_test GP_index mean var grid (num # nums) =
     bind (MAP_scorer Y_test num GP_index mean var grid) (\<lambda>loc.
     bind (Y_hat_loop Y_test GP_index mean var grid nums) (\<lambda>rest.
     Inr (loc # rest)))"

definition infer_locations ::
  "point list \<Rightarrow> pyfloat list list \<Rightarrow> nat list \<Rightarrow> real list list \<Rightarrow> real list list \<Rightarrow> point list
     \<Rightarrow> error + point list" where
  "infer_locations X_test Y_test GP_index mean var grid =
     Y_hat_loop Y_test GP_index mean var grid [0..<length X_test]"

subsection \<open>What the scorer computes, in closed form\<close>

text \<open>The log-density of a Gaussian of mean \<open>m\<close> and variance \<open>v\<close> at \<open>x\<close>.\<close>

definition gauss_logpdf :: "real \<Rightarrow> real \<Rightarrow> real \<Rightarrow> real" where
  "gauss_logpdf x m v = - (ln (2 * pi) + ln v + (x - m)\<^sup>2 / v) / 2"

text \<open>
  The term that AP number \<open>k\<close> of the fitted ones adds to \<open>sum[p]\<close>: nothing when the
  sample's reading is NaN, and otherwise the log-density of a Gaussian whose variance is
  the square root of the predicted variance, since that square root is passed as \<open>cov\<close>.
\<close>

definition ap_logpdf ::
  "pyfloat list list \<Rightarrow> nat \<Rightarrow> nat list \<Rightarrow> real list list \<Rightarrow> real list list \<Rightarrow> nat \<Rightarrow> nat
     \<Rightarrow> real" where
  "ap_logpdf Y_test num GP_index mean var p k =
     (case Y_test ! num ! (GP_index ! k) of
        None \<Rightarrow> 0
      | Some r \<Rightarrow> gauss_logpdf r (mean ! p ! k) (sqrt (var ! p ! k)))"

definition grid_score ::
  "pyfloat list list \<Rightarrow> nat \<Rightarrow> nat list \<Rightarrow> real list list \<Rightarrow> real list list \<Rightarrow> nat \<Rightarrow> real" where
  "grid_score Y_test num GP_index mean var p =
     (\<Sum>k\<leftarrow>[0..<length GP_index]. ap_logpdf Y_test num GP_index mean var p k)"

text \<open>
  The inputs on which the loop body raises nothing at grid point \<open>p\<close> and AP number
  \<open>k\<close>: the indices are in range and, where the reading is not NaN, the predicted
  variance is positive.
\<close>

definition point_ok ::
  "pyfloat list list \<Rightarrow> nat \<Rightarrow> nat list \<Rightarrow> real list list \<Rightarrow> real list list \<Rightarrow> nat \<Rightarrow> nat
     \<Rightarrow> bool" where
  "point_ok Y_test num GP_index mean var p k \<longleftrightarrow>
     k < length GP_index \<and> num < length Y_test \<and> GP_index ! k < length (Y_test ! num) \<and>
     (Y_test ! num ! (GP_index ! k) \<noteq> None \<longrightarrow>
        p < length mean \<and> k < length (mean ! p) \<and>
        p < length var \<and> k < length (var ! p) \<and> 0 < var ! p ! k)"

subsection \<open>The scorer of the specification\<close>

text \<open>
  The specification's words: the log-density of the observed value under a univariate
  Gaussian with the grid point's predicted mean and standard deviation, the standard
  deviation being the square root of the predicted variance; summed over the fitted APs
  whose reading is not missing.
\<close>

definition spec_logpdf :: "real \<Rightarrow> real \<Rightarrow> real \<Rightarrow> real" where
  "spec_logpdf x m sd = - (ln (2 * pi) + ln (sd\<^sup>2) + (x - m)\<^sup>2 / sd\<^sup>2) / 2"

definition spec_score ::
  "pyfloat list list \<Rightarrow> nat \<Rightarrow> nat list \<Rightarrow> real list list \<Rightarrow> real list list \<Rightarrow> nat \<Rightarrow> real" where
  "spec_score Y_test num GP_index mean var p =
     (\<Sum>k\<leftarrow>[0..<length GP_index].
        case Y_test ! num ! (GP_index ! k) of
          None \<Rightarrow> 0
        | Some r \<Rightarrow> spec_logpdf r (mean ! p ! k) (sqrt (var ! p ! k)))"

section \<open>Localization error and 10-fold cross-validation\<close>

text \<open>
  \<^verbatim>\<open>
    Y_testing = X_test.T
    Y_hat = Y_hat.T
    errors = np.linalg.norm(Y_testing - Y_hat, axis=0)
    print("Mean localization error = %f"%np.mean(errors))
  \<close>
  \<open>Y_hat\<close> has one row per row of \<open>X_test\<close>. \<open>np.mean\<close> of an empty array is NaN.
\<close>

definition localization_errors :: "point list \<Rightarrow> point list \<Rightarrow> real list" where
  "localization_errors Y_testing Y_hat =
     map (\<lambda>(t, h). sqrt ((fst t - fst h)\<^sup>2 + (snd t - snd h)\<^sup>2)) (zip Y_testing Y_hat)"

definition np_mean :: "real list \<Rightarrow> pyfloat" where
  "np_mean xs = (if xs = [] then None else Some (sum_list xs / real (length xs)))"

text \<open>
  Modelled from the spec: the k-fold partition generator, which is
  \<open>sklearn.model_selection.KFold(n_splits)\<close> without shuffling (not part of the
  repository's sources): folds of size \<open>n_samples div n_splits\<close>, the remainder
  distributed one each over the first \<open>n_samples mod n_splits\<close> folds, taken as
  consecutive runs of the indices; \<open>split\<close> yields, for each fold, the indices outside
  it and the fold. More splits than samples, or fewer than two splits, is a ValueError.
\<close>

definition fold_sizes :: "nat \<Rightarrow> nat \<Rightarrow> nat list" where
  "fold_sizes n_splits n_samples =
     map (\<lambda>j. n_samples div n_splits + (if j < n_samples mod n_splits then 1 else 0))
       [0..<n_splits]"

fun test_folds :: "nat \<Rightarrow> nat list \<Rightarrow> nat list list" where
  "test_folds current [] = []"
| "test_folds current (fold_size # rest) =
     [current..<current + fold_size] # test_folds (current + fold_size) rest"

definition KFold_split :: "nat \<Rightarrow> nat \<Rightarrow> error + (nat list \<times> nat list) list" where
  "KFold_split n_splits n_samples =
     (if n_splits \<le> 1 \<or> n_samples < n_splits then Inl ValueError
      else Inr (map (\<lambda>test_index. (filter (\<lambda>i. i \<notin> set test_index) [0..<n_samples], test_index))
                  (test_folds 0 (fold_sizes n_splits n_samples))))"

text \<open>
  \<^verbatim>\<open>
    error_sum = 0
    X = Y_new
    y = X_mean
    kf = KFold(n_splits=10)
    for train_index, test_index in kf.split(X):
        X_train, X_test = X[train_index], X[test_index]
        Y_train, Y_test = y[train_index], y[test_index]
        ... fit the regressors, predict on the grid, infer Y_hat ...
        errors = np.linalg.norm(Y_testing - Y_hat, axis=0)
        error_sum += np.mean(errors)
    cross_validation_error = error_sum/10
  \<close>
\<close>

text \<open>\<open>a[index]\<close> for an array of indices.\<close>

definition take_rows :: "'a list \<Rightarrow> nat list \<Rightarrow> error + 'a list" where
  "take_rows a index =
     (if \<forall>i\<in>set index. i < length a then Inr (map (\<lambda>i. a ! i) index) else Inl IndexError)"

text \<open>Float addition and division by a number, NaN being absorbing.\<close>

definition fadd :: "pyfloat \<Rightarrow> pyfloat \<Rightarrow> pyfloat" where
  "fadd a b = (case a of None \<Rightarrow> None | Some x \<Rightarrow> (case b of None \<Rightarrow> None | Some y \<Rightarrow> Some (x + y)))"

definition fdiv :: "pyfloat \<Rightarrow> real \<Rightarrow> pyfloat" where
  "fdiv a d = (case a of None \<Rightarrow> None | Some x \<Rightarrow> Some (x / d))"

text \<open>The inferred locations of one fold.\<close>

definition fold_Y_hat ::
  "(point list \<Rightarrow> real list \<Rightarrow> 'gp) \<Rightarrow> ('gp \<Rightarrow> point list \<Rightarrow> real list \<times> real list)
     \<Rightarrow> point list \<Rightarrow> nat \<Rightarrow> point list \<Rightarrow> pyfloat list list \<Rightarrow> nat list \<times> nat list
     \<Rightarrow> error + point list" where
  "fold_Y_hat GPRegression predict grid num_AP X y split =
     bind (take_rows X (fst split)) (\<lambda>X_train.
     bind (take_rows X (snd split)) (\<lambda>X_test.
     bind (take_rows y (fst split)) (\<lambda>Y_train.
     bind (take_rows y (snd split)) (\<lambda>Y_test.
     bind (fit_GPs GPRegression X_train Y_train num_AP) (\<lambda>(GP, GP_index).
     bind (predict_grid predict GP grid) (\<lambda>(mean, var).
     infer_locations X_test Y_test GP_index mean var grid))))))"

text \<open>The mean localization error of one fold, the value added to \<open>error_sum\<close>.\<close>

definition fold_mean_error ::
  "(point list \<Rightarrow> real list \<Rightarrow> 'gp) \<Rightarrow> ('gp \<Rightarrow> point list \<Rightarrow> real list \<times> real list)
     \<Rightarrow> point list \<Rightarrow> nat \<Rightarrow> point list \<Rightarrow> pyfloat list list \<Rightarrow> nat list \<times> nat list
     \<Rightarrow> error + pyfloat" where
  "fold_mean_error GPRegression predict grid num_AP X y split =
     bind (fold_Y_hat GPRegression predict grid num_AP X y split) (\<lambda>Y_hat.
     Inr (np_mean (localization_errors (map (\<lambda>i. X ! i) (snd split)) Y_hat)))"

text \<open>The loop over the folds, on the running \<open>error_sum\<close>.\<close>

fun cv_loop ::
  "(point list \<Rightarrow> real list \<Rightarrow> 'gp) \<Rightarrow> ('gp \<Rightarrow> point list \<Rightarrow> real list \<times> real list)
     \<Rightarrow> point list \<Rightarrow> nat \<Rightarrow> point list \<Rightarrow> pyfloat list list \<Rightarrow> (nat list \<times> nat list) list
     \<Rightarrow> pyfloat \<Rightarrow> error + pyfloat" where
  "cv_loop GPRegression predict grid num_AP X y [] error_sum = Inr error_sum"
| "cv_loop GPRegression predict grid num_AP X y (split # splits) error_sum =
     bind (fold_mean_error GPRegression predict grid num_AP X y split) (\<lambda>e.
     cv_loop GPRegression predict grid num_AP X y splits (fadd error_sum e))"

definition cross_validation_error ::
  "(point list \<Rightarrow> real list \<Rightarrow> 'gp) \<Rightarrow> ('gp \<Rightarrow> point list \<Rightarrow> real list \<times> real list)
     \<Rightarrow> point list \<Rightarrow> nat \<Rightarrow> point list \<Rightarrow> pyfloat list list \<Rightarrow> error + pyfloat" where
  "cross_validation_error GPRegression predict grid num_AP X y =
     bind (KFold_split 10 (length X)) (\<lambda>splits.
     bind (cv_loop GPRegression predict grid num_AP X y splits (Some 0)) (\<lambda>error_sum.
     Inr (fdiv error_sum 10)))"

section \<open>The scorer on doubles\<close>

text \<open>
  The sections above take the arithmetic of the cells over the reals. This section keeps
  what the reals lose: a double is a finite number, an infinity or NaN, and an operation
  on doubles may overflow to an infinity, underflow to zero or give NaN. numpy and scipy
  signal these with warnings (the notebook's output shows them) and return the value;
  what raises is fixed by the value a function is called on:
  \<^item> \<open>math.sqrt\<close> raises ValueError on a negative number and on \<open>-inf\<close>; it returns
    \<open>inf\<close> on \<open>inf\<close> and NaN on NaN. The square root of a positive double is a positive
    double (it neither overflows nor underflows); its rounding is not modelled.
  \<^item> \<open>multivariate_normal.logpdf\<close> checks its covariance before any arithmetic: an
    infinite or NaN covariance raises ValueError (array must not contain infs or NaNs),
    a negative one ValueError, a zero one LinAlgError. For a positive finite covariance
    it returns a double and raises nothing.
  \<^item> \<open>np.argmax\<close> raises ValueError on an empty array only; a NaN entry counts as the
    maximum, the first one winning.
  The double that the density returns on a valid covariance and the double that the
  addition \<open>sum[p] += ...\<close> returns are the parameters \<open>density\<close> and \<open>add64\<close>: nothing
  is assumed of them, so a statement for all \<open>density\<close> and \<open>add64\<close> holds whatever
  overflow, underflow and rounding do to the values.
\<close>

datatype float64 = Finite real | PosInf | NegInf | NaN

definition isnan :: "float64 \<Rightarrow> bool" where
  "isnan x \<longleftrightarrow> x = NaN"

text \<open>The comparison \<open>x <= y\<close> of doubles: false when either is NaN.\<close>

fun fl_le :: "float64 \<Rightarrow> float64 \<Rightarrow> bool" where
  "fl_le NaN y = False"
| "fl_le x NaN = False"
| "fl_le NegInf y = True"
| "fl_le x PosInf = True"
| "fl_le (Finite a) (Finite b) = (a \<le> b)"
| "fl_le (Finite a) NegInf = False"
| "fl_le PosInf y = False"

definition fl_math_sqrt :: "float64 \<Rightarrow> error + float64" where
  "fl_math_sqrt x =
     (case x of
        Finite v \<Rightarrow> if v < 0 then Inl ValueError else Inr (Finite (sqrt v))
      | PosInf \<Rightarrow> Inr PosInf
      | NegInf \<Rightarrow> Inl ValueError
      | NaN \<Rightarrow> Inr NaN)"

definition fl_logpdf ::
  "(float64 \<Rightarrow> float64 \<Rightarrow> real \<Rightarrow> float64) \<Rightarrow> float64 \<Rightarrow> float64 \<Rightarrow> float64
     \<Rightarrow> error + float64" where
  "fl_logpdf density x mean cov =
     (case cov of
        Finite c \<Rightarrow>
          if c < 0 then Inl ValueError
          else if c = 0 then Inl LinAlgError
          else Inr (density x mean c)
      | PosInf \<Rightarrow> Inl ValueError
      | NegInf \<Rightarrow> Inl ValueError
      | NaN \<Rightarrow> Inl ValueError)"

text \<open>
  \<open>np.argmax\<close> on doubles, as numpy scans: a NaN first entry gives index 0; an entry
  replaces the best so far when it is not \<open><=\<close> it, and the scan stops at a NaN.
\<close>

fun fl_argmax_loop :: "float64 list \<Rightarrow> nat \<Rightarrow> nat \<Rightarrow> float64 \<Rightarrow> nat" where
  "fl_argmax_loop [] i best bv = best"
| "fl_argmax_loop (y # ys) i best bv =
     (if \<not> fl_le y bv
      then (if isnan y then i else fl_argmax_loop ys (Suc i) i y)
      else fl_argmax_loop ys (Suc i) best bv)"

definition fl_argmax :: "float64 list \<Rightarrow> error + nat" where
  "fl_argmax xs =
     (case xs of
        [] \<Rightarrow> Inl ValueError
      | x # rest \<Rightarrow> Inr (if isnan x then 0 else fl_argmax_loop rest 1 0 x))"

text \<open>The scorer cell again, loop by loop, on arrays of doubles.\<close>

definition fl_add_logpdf ::
  "(float64 \<Rightarrow> float64 \<Rightarrow> real \<Rightarrow> float64) \<Rightarrow> (float64 \<Rightarrow> float64 \<Rightarrow> float64)
     \<Rightarrow> float64 list list \<Rightarrow> nat \<Rightarrow> nat list \<Rightarrow> float64 list list \<Rightarrow> float64 list list
     \<Rightarrow> nat \<Rightarrow> nat \<Rightarrow> float64 \<Rightarrow> error + float64" where
  "fl_add_logpdf density add64 Y_test num GP_index mean var p k acc =
     bind (getitem GP_index k) (\<lambda>a.
     bind (getitem2 Y_test num a) (\<lambda>RSS.
       if isnan RSS then Inr acc
       else
         bind (getitem2 mean p k) (\<lambda>m.
         bind (getitem2 var p k) (\<lambda>v.
         bind (fl_math_sqrt v) (\<lambda>s.
         bind (fl_logpdf density RSS m s) (\<lambda>l.
         Inr (add64 acc l)))))))"

fun fl_sum_logpdf ::
  "(float64 \<Rightarrow> float64 \<Rightarrow> real \<Rightarrow> float64) \<Rightarrow> (float64 \<Rightarrow> float64 \<Rightarrow> float64)
     \<Rightarrow> float64 list list \<Rightarrow> nat \<Rightarrow> nat list \<Rightarrow> float64 list list \<Rightarrow> float64 list list
     \<Rightarrow> nat \<Rightarrow> nat list \<Rightarrow> float64 \<Rightarrow> error + float64" where
  "fl_sum_logpdf density add64 Y_test num GP_index mean var p [] acc = Inr acc"
| "fl_sum_logpdf density add64 Y_test num GP_index mean var p (k # ks) acc =
     bind (fl_add_logpdf density add64 Y_test num GP_index mean var p k acc)
       (\<lambda>acc'. fl_sum_logpdf density add64 Y_test num GP_index mean var p ks acc')"

fun fl_score_grid ::
  "(float64 \<Rightarrow> float64 \<Rightarrow> real \<Rightarrow> float64) \<Rightarrow> (float64 \<Rightarrow> float64 \<Rightarrow> float64)
     \<Rightarrow> float64 list list \<Rightarrow> nat \<Rightarrow> nat list \<Rightarrow> float64 list list \<Rightarrow> float64 list list
     \<Rightarrow> nat list \<Rightarrow> error + float64 list" where
  "fl_score_grid density add64 Y_test num GP_index mean var [] = Inr []"
| "fl_score_grid density add64 Y_test num GP_index mean var (p # ps) =
     bind (fl_sum_logpdf density add64 Y_test num GP_index mean var p [0..<length GP_index]
             (Finite 0)) (\<lambda>s.
     bind (fl_score_grid density add64 Y_test num GP_index mean var ps) (\<lambda>rest.
     Inr (s # rest)))"

definition fl_MAP_scorer ::
  "(float64 \<Rightarrow> float64 \<Rightarrow> real \<Rightarrow> float64) \<Rightarrow> (float64 \<Rightarrow> float64 \<Rightarrow> float64)
     \<Rightarrow> float64 list list \<Rightarrow> nat \<Rightarrow> nat list \<Rightarrow> float64 list list \<Rightarrow> float64 list list
     \<Rightarrow> point list \<Rightarrow> error + point" where
  "fl_MAP_scorer density add64 Y_test num GP_index mean var grid =
     bind (fl_score_grid density add64 Y_test num GP_index mean var [0..<length grid]) (\<lambda>sum.
     bind (fl_argmax sum) (\<lambda>max_index.
     getitem grid max_index))"

text \<open>
  The arithmetic without overflow, underflow or rounding, for finite arguments: the
  Gaussian log-density of the real-valued sections and the sum of the reals. On an
  infinite argument the density has an infinite or undefined deviation.
\<close>

definition exact_density :: "float64 \<Rightarrow> float64 \<Rightarrow> real \<Rightarrow> float64" where
  "exact_density x mean c =
     (case x of
        Finite a \<Rightarrow> (case mean of
                       Finite b \<Rightarrow> Finite (gauss_logpdf a b c)
                     | PosInf \<Rightarrow> NegInf | NegInf \<Rightarrow> NegInf | NaN \<Rightarrow> NaN)
      | PosInf \<Rightarrow> (case mean of
                     Finite b \<Rightarrow> NegInf | PosInf \<Rightarrow> NaN | NegInf \<Rightarrow> NegInf | NaN \<Rightarrow> NaN)
      | NegInf \<Rightarrow> (case mean of
                     Finite b \<Rightarrow> NegInf | PosInf \<Rightarrow> NegInf | NegInf \<Rightarrow> NaN | NaN \<Rightarrow> NaN)
      | NaN \<Rightarrow> NaN)"

definition exact_plus :: "float64 \<Rightarrow> float64 \<Rightarrow> float64" where
  "exact_plus x y =
     (case x of
        Finite a \<Rightarrow> (case y of Finite b \<Rightarrow> Finite (a + b) | _ \<Rightarrow> y)
      | PosInf \<Rightarrow> (case y of NegInf \<Rightarrow> NaN | NaN \<Rightarrow> NaN | _ \<Rightarrow> PosInf)
      | NegInf \<Rightarrow> (case y of PosInf \<Rightarrow> NaN | NaN \<Rightarrow> NaN | _ \<Rightarrow> NegInf)
      | NaN \<Rightarrow> NaN)"

text \<open>An entry of the real-valued sections as a double: NaN stays NaN.\<close>

definition to_float64 :: "pyfloat \<Rightarrow> float64" where
  "to_float64 x = (case x of None \<Rightarrow> NaN | Some r \<Rightarrow> Finite r)"

section \<open>Properties of the scorer\<close>

subsection \<open>Error propagation and the loops in closed form\<close>

lemma bind_Inr [simp]: "bind (Inr a) f = f a"
  by (simp add: bind_def)

lemma bind_Inl [simp]: "bind (Inl e) f = Inl e"
  by (simp add: bind_def)

lemma bind_eq_Inr: "bind r f = Inr b \<longleftrightarrow> (\<exists>a. r = Inr a \<and> f a = Inr b)"
  by (cases r) simp_all

lemma add_logpdf_ok:
  assumes "point_ok Y_test num GP_index mean var p k"
  shows "add_logpdf Y_test num GP_index mean var p k acc =
           Inr (acc + ap_logpdf Y_test num GP_index mean var p k)"
  using assms
  by (auto simp: point_ok_def add_logpdf_def ap_logpdf_def getitem_def getitem2_def
        math_sqrt_def multivariate_normal_logpdf_def gauss_logpdf_def split: option.splits)

lemma sum_logpdf_ok:
  assumes "\<forall>k\<in>set ks. point_ok Y_test num GP_index mean var p k"
  shows "sum_logpdf Y_test num GP_index mean var p ks acc =
           Inr (acc + (\<Sum>k\<leftarrow>ks. ap_logpdf Y_test num GP_index mean var p k))"
  using assms
  by (induction ks arbitrary: acc) (simp_all add: add_logpdf_ok add.assoc)

lemma score_grid_ok:
  assumes "\<forall>p\<in>set ps. \<forall>k<length GP_index. point_ok Y_test num GP_index mean var p k"
  shows "score_grid Y_test num GP_index mean var ps =
           Inr (map (grid_score Y_test num GP_index mean var) ps)"
  using assms
  by (induction ps) (simp_all add: sum_logpdf_ok grid_score_def)

lemma score_grid_length:
  "score_grid Y_test num GP_index mean var ps = Inr s \<Longrightarrow> length s = length ps"
  by (induction ps arbitrary: s) (auto simp: bind_eq_Inr)

lemma argmax_loop_props:
  assumes "best < i" "i = length pre" "bv = pre ! best" "\<forall>j<length pre. pre ! j \<le> bv"
    "\<forall>j<best. pre ! j < bv"
  shows "argmax_loop ys i best bv < length (pre @ ys) \<and>
         (\<forall>j<length (pre @ ys). (pre @ ys) ! j \<le> (pre @ ys) ! argmax_loop ys i best bv) \<and>
         (\<forall>j<argmax_loop ys i best bv. (pre @ ys) ! j < (pre @ ys) ! argmax_loop ys i best bv)"
  using assms
proof (induction ys arbitrary: i best bv pre)
  case Nil
  then show ?case by simp
next
  case (Cons y ys)
  show ?case
  proof (cases "bv < y")
    case True
    have "argmax_loop ys (Suc i) i y < length ((pre @ [y]) @ ys) \<and>
         (\<forall>j<length ((pre @ [y]) @ ys). ((pre @ [y]) @ ys) ! j \<le> ((pre @ [y]) @ ys) ! argmax_loop ys (Suc i) i y) \<and>
         (\<forall>j<argmax_loop ys (Suc i) i y. ((pre @ [y]) @ ys) ! j < ((pre @ [y]) @ ys) ! argmax_loop ys (Suc i) i y)"
    proof (rule Cons.IH)
      show "i < Suc i" by simp
      show "Suc i = length (pre @ [y])" using Cons.prems by simp
      show "y = (pre @ [y]) ! i" using Cons.prems by simp
      show "\<forall>j<length (pre @ [y]). (pre @ [y]) ! j \<le> y"
        using Cons.prems True by (auto simp: nth_append less_Suc_eq intro: order.trans less_imp_le)
      show "\<forall>j<i. (pre @ [y]) ! j < y"
        using Cons.prems True by (auto simp: nth_append intro: le_less_trans)
    qed
    then show ?thesis using True by simp
  next
    case False
    have "argmax_loop ys (Suc i) best bv < length ((pre @ [y]) @ ys) \<and>
         (\<forall>j<length ((pre @ [y]) @ ys). ((pre @ [y]) @ ys) ! j \<le> ((pre @ [y]) @ ys) ! argmax_loop ys (Suc i) best bv) \<and>
         (\<forall>j<argmax_loop ys (Suc i) best bv. ((pre @ [y]) @ ys) ! j < ((pre @ [y]) @ ys) ! argmax_loop ys (Suc i) best bv)"
    proof (rule Cons.IH)
      show "best < Suc i" using Cons.prems by simp
      show "Suc i = length (pre @ [y])" using Cons.prems by simp
      show "bv = (pre @ [y]) ! best" using Cons.prems by (simp add: nth_append)
      show "\<forall>j<length (pre @ [y]). (pre @ [y]) ! j \<le> bv"
        using Cons.prems False by (auto simp: nth_append less_Suc_eq)
      show "\<forall>j<best. (pre @ [y]) ! j < bv"
        using Cons.prems by (auto simp: nth_append)
    qed
    then show ?thesis using False by simp
  qed
qed

lemma np_argmax_props:
  assumes "xs \<noteq> []"
  shows "\<exists>i. np_argmax xs = Inr i \<and> i < length xs \<and> (\<forall>j<length xs. xs ! j \<le> xs ! i) \<and>
             (\<forall>j<i. xs ! j < xs ! i)"
proof -
  obtain x rest where xs: "xs = x # rest" using assms by (cases xs) auto
  have "argmax_loop rest 1 0 x < length ([x] @ rest) \<and>
         (\<forall>j<length ([x] @ rest). ([x] @ rest) ! j \<le> ([x] @ rest) ! argmax_loop rest 1 0 x) \<and>
         (\<forall>j<argmax_loop rest 1 0 x. ([x] @ rest) ! j < ([x] @ rest) ! argmax_loop rest 1 0 x)"
    by (rule argmax_loop_props) auto
  then show ?thesis by (simp add: xs np_argmax_def)
qed

lemma np_argmax_Inr_lt: "np_argmax xs = Inr i \<Longrightarrow> i < length xs"
  using np_argmax_props [of xs] by (cases xs) (auto simp: np_argmax_def)

text \<open>An index that is a maximum and strictly above everything before it is the arg-max.\<close>

lemma np_argmax_first:
  assumes "g < length xs" "\<forall>j<length xs. xs ! j \<le> xs ! g" "\<forall>j<g. xs ! j < xs ! g"
  shows "np_argmax xs = Inr g"
proof -
  have "xs \<noteq> []" using assms by auto
  then obtain i where i: "np_argmax xs = Inr i" "i < length xs" "\<forall>j<length xs. xs ! j \<le> xs ! i"
    "\<forall>j<i. xs ! j < xs ! i"
    using np_argmax_props by blast
  have "\<not> i < g" using assms(3) i(2,3) assms(1) by (meson leD)
  moreover have "\<not> g < i" using i(4) assms(1,2) i(2) by (meson leD)
  ultimately show ?thesis using i(1) by simp
qed

lemma MAP_scorer_in_grid:
  assumes "MAP_scorer Y_test num GP_index mean var grid = Inr loc"
  shows "loc \<in> set grid"
  using assms
  by (auto simp: MAP_scorer_def bind_eq_Inr getitem_def split: if_splits)

lemma MAP_scorer_ok:
  assumes ok: "\<forall>p<length grid. \<forall>k<length GP_index. point_ok Y_test num GP_index mean var p k"
    and ne: "grid \<noteq> []"
  shows "\<exists>i<length grid. MAP_scorer Y_test num GP_index mean var grid = Inr (grid ! i) \<and>
           (\<forall>p<length grid. grid_score Y_test num GP_index mean var p
                             \<le> grid_score Y_test num GP_index mean var i) \<and>
           (\<forall>p<i. grid_score Y_test num GP_index mean var p
                             < grid_score Y_test num GP_index mean var i)"
proof -
  let ?s = "map (grid_score Y_test num GP_index mean var) [0..<length grid]"
  have sg: "score_grid Y_test num GP_index mean var [0..<length grid] = Inr ?s"
    using ok by (intro score_grid_ok) simp
  have "?s \<noteq> []" using ne by simp
  then obtain i where i: "np_argmax ?s = Inr i" "i < length ?s" "\<forall>j<length ?s. ?s ! j \<le> ?s ! i"
    "\<forall>j<i. ?s ! j < ?s ! i"
    using np_argmax_props by blast
  have il: "i < length grid" using i(2) by simp
  have "MAP_scorer Y_test num GP_index mean var grid = Inr (grid ! i)"
    using il by (simp add: MAP_scorer_def sg i(1) getitem_def)
  moreover have "\<forall>p<length grid. grid_score Y_test num GP_index mean var p
                             \<le> grid_score Y_test num GP_index mean var i"
    using i(3) il by simp
  moreover have "\<forall>p<i. grid_score Y_test num GP_index mean var p
                             < grid_score Y_test num GP_index mean var i"
    using i(4) il by simp
  ultimately show ?thesis using il by blast
qed

lemma MAP_scorer_at:
  assumes ok: "\<forall>p<length grid. \<forall>k<length GP_index. point_ok Y_test num GP_index mean var p k"
    and g: "g < length grid"
    and mx: "\<forall>p<length grid. grid_score Y_test num GP_index mean var p
                             \<le> grid_score Y_test num GP_index mean var g"
    and first: "\<forall>p<g. grid_score Y_test num GP_index mean var p
                             < grid_score Y_test num GP_index mean var g"
  shows "MAP_scorer Y_test num GP_index mean var grid = Inr (grid ! g)"
proof -
  let ?s = "map (grid_score Y_test num GP_index mean var) [0..<length grid]"
  have sg: "score_grid Y_test num GP_index mean var [0..<length grid] = Inr ?s"
    using ok by (intro score_grid_ok) simp
  have "np_argmax ?s = Inr g"
    using g mx first by (intro np_argmax_first) simp_all
  then show ?thesis using g by (simp add: MAP_scorer_def sg getitem_def)
qed

lemma ln_4_gt_1: "1 < ln (4::real)"
proof -
  have "exp 1 < (4::real)" using exp_le by simp
  then have "ln (exp 1) < ln (4::real)" by (subst ln_less_cancel_iff) simp_all
  then show ?thesis by simp
qed

lemma all_missing_point_ok:
  assumes "\<forall>a\<in>set GP_index. getitem2 Y_test num a = Inr None" "k < length GP_index"
  shows "point_ok Y_test num GP_index mean var p k \<and> ap_logpdf Y_test num GP_index mean var p k = 0"
proof -
  have "getitem2 Y_test num (GP_index ! k) = Inr None" using assms by simp
  then show ?thesis using assms(2)
    by (auto simp: point_ok_def ap_logpdf_def getitem2_def getitem_def split: if_splits)
qed

lemma sum_list_zeros: "\<forall>x\<in>set xs. f x = (0::real) \<Longrightarrow> sum_list (map f xs) = 0"
  by (induction xs) simp_all

lemma all_missing_score:
  assumes "\<forall>a\<in>set GP_index. getitem2 Y_test num a = Inr None"
  shows "grid_score Y_test num GP_index mean var p = 0"
proof -
  have "\<forall>k\<in>set [0..<length GP_index]. ap_logpdf Y_test num GP_index mean var p k = 0"
    using all_missing_point_ok [OF assms] by simp
  then show ?thesis unfolding grid_score_def by (rule sum_list_zeros)
qed

lemma upt_2: "[0..<2] = [0, Suc 0]"
  by (simp add: numeral_2_eq_2)

lemma all_missing_score_grid:
  assumes "\<forall>a\<in>set GP_index. getitem2 Y_test num a = Inr None"
  shows "score_grid Y_test num GP_index mean var ps = Inr (replicate (length ps) 0)"
proof -
  have ok: "\<forall>p\<in>set ps. \<forall>k<length GP_index. point_ok Y_test num GP_index mean var p k"
    using all_missing_point_ok [OF assms] by blast
  have "score_grid Y_test num GP_index mean var ps
          = Inr (map (grid_score Y_test num GP_index mean var) ps)"
    using ok by (rule score_grid_ok)
  also have "map (grid_score Y_test num GP_index mean var) ps = replicate (length ps) 0"
    by (rule nth_equalityI) (simp_all add: all_missing_score [OF assms])
  finally show ?thesis .
qed

subsection \<open>The density that is summed\<close>

text \<open>
  C1. The scorer is to sum, over the fitted APs whose reading is not NaN, the log-density
  of the reading under the Gaussian with the grid point's predicted mean and with
  standard deviation the square root of its predicted variance, and to return the grid
  point of maximal sum. The cell passes that square root to
  \<open>multivariate_normal.logpdf\<close> as its third argument, which is the covariance, so
  the Gaussian summed has the square root of the predicted variance as its variance.
  On one reading \<open>0\<close>, one AP and two grid points, with predicted means \<open>0\<close> and
  \<open>1\<close> and predicted variances \<open>4\<close> and \<open>1\<close>, the sums of the cell are
  \<open>-(ln (2 pi) + ln 2) / 2\<close> and \<open>-(ln (2 pi) + 1) / 2\<close> and it returns the first
  grid point, while the sums the specification describes are \<open>-(ln (2 pi) + ln 4) / 2\<close>
  and \<open>-(ln (2 pi) + 1) / 2\<close>, the larger at the second grid point.
\<close>

theorem scorer_uses_sqrt_as_variance:
  "score_grid [[Some 0]] 0 [0] [[0], [1]] [[4], [1]] [0, 1]
     = Inr [- (ln (2 * pi) + ln 2) / 2, - (ln (2 * pi) + 1) / 2] \<and>
   MAP_scorer [[Some 0]] 0 [0] [[0], [1]] [[4], [1]] [(0, 0), (1, 1)] = Inr (0, 0) \<and>
   spec_score [[Some 0]] 0 [0] [[0], [1]] [[4], [1]] 0 = - (ln (2 * pi) + ln 4) / 2 \<and>
   spec_score [[Some 0]] 0 [0] [[0], [1]] [[4], [1]] 1 = - (ln (2 * pi) + 1) / 2 \<and>
   spec_score [[Some 0]] 0 [0] [[0], [1]] [[4], [1]] 0
     < spec_score [[Some 0]] 0 [0] [[0], [1]] [[4], [1]] 1"
proof -
  have s0: "sum_logpdf [[Some 0]] 0 [0] [[0], [1]] [[4], [1]] 0 [0] 0
              = Inr (- (ln (2 * pi) + ln 2) / 2)"
    by (simp add: add_logpdf_def getitem_def getitem2_def math_sqrt_def
          multivariate_normal_logpdf_def)
  have s1: "sum_logpdf [[Some 0]] 0 [0] [[0], [1]] [[4], [1]] 1 [0] 0
              = Inr (- (ln (2 * pi) + 1) / 2)"
    by (simp add: add_logpdf_def getitem_def getitem2_def math_sqrt_def
          multivariate_normal_logpdf_def)
  have sg: "score_grid [[Some 0]] 0 [0] [[0], [1]] [[4], [1]] [0, 1]
              = Inr [- (ln (2 * pi) + ln 2) / 2, - (ln (2 * pi) + 1) / 2]"
    using s0 s1 by simp
  have am: "np_argmax [- (ln (2 * pi) + ln 2) / 2, - (ln (2 * pi) + 1) / 2] = Inr 0"
    using ln_2_less_1 by (simp add: np_argmax_def)
  have up: "[0..<length [(0::real, 0::real), (1, 1)]] = [0, 1]"
    by (simp add: upt_2)
  have code: "MAP_scorer [[Some 0]] 0 [0] [[0], [1]] [[4], [1]] [(0, 0), (1, 1)] = Inr (0, 0)"
    unfolding MAP_scorer_def up sg bind_Inr am by (simp add: getitem_def)
  have sp0: "spec_score [[Some 0]] 0 [0] [[0], [1]] [[4], [1]] 0 = - (ln (2 * pi) + ln 4) / 2"
    by (simp add: spec_score_def spec_logpdf_def)
  have sp1: "spec_score [[Some 0]] 0 [0] [[0], [1]] [[4], [1]] 1 = - (ln (2 * pi) + 1) / 2"
    by (simp add: spec_score_def spec_logpdf_def)
  have "- (ln (2 * pi) + ln 4) / 2 < - (ln (2 * pi) + 1) / (2::real)"
    using ln_4_gt_1 by argo
  then have lt: "spec_score [[Some 0]] 0 [0] [[0], [1]] [[4], [1]] 0
     < spec_score [[Some 0]] 0 [0] [[0], [1]] [[4], [1]] 1"
    by (simp only: sp0 sp1)
  show ?thesis using sg code sp0 sp1 lt by (intro conjI)
qed

subsection \<open>A sample with no reading on the fitted APs\<close>

text \<open>
  C2. On a grid with at least one point, when every fitted AP's reading of the test
  sample is NaN, the array of summed log-densities is zero at every grid point, its
  arg-max is index 0, and the scorer returns the first grid point, whatever the
  prediction arrays hold.
\<close>

theorem all_missing_returns_first:
  assumes "grid \<noteq> []"
    and "\<forall>a\<in>set GP_index. getitem2 Y_test num a = Inr None"
  shows "score_grid Y_test num GP_index mean var [0..<length grid]
           = Inr (replicate (length grid) 0) \<and>
         np_argmax (replicate (length grid) 0) = Inr 0 \<and>
         MAP_scorer Y_test num GP_index mean var grid = Inr (grid ! 0)"
proof -
  have sg: "score_grid Y_test num GP_index mean var [0..<length grid]
              = Inr (replicate (length grid) 0)"
    using all_missing_score_grid [OF assms(2), of mean var "[0..<length grid]"] by simp
  have am: "np_argmax (replicate (length grid) (0::real)) = Inr 0"
    using assms(1) by (intro np_argmax_first) simp_all
  have "MAP_scorer Y_test num GP_index mean var grid = Inr (grid ! 0)"
    using assms(1) by (simp add: MAP_scorer_def sg am getitem_def)
  then show ?thesis using sg am by simp
qed

theorem all_missing_returns_first_witness:
  "score_grid [[None, Some 1]] 0 [0] [] [] [0..<length [(0::real, 0::real), (1, 1)]]
     = Inr (replicate (length [(0::real, 0::real), (1, 1)]) 0) \<and>
   np_argmax (replicate (length [(0::real, 0::real), (1, 1)]) 0) = Inr 0 \<and>
   MAP_scorer [[None, Some 1]] 0 [0] [] [] [(0, 0), (1, 1)] = Inr (0, 0)"
proof -
  have h1: "[(0::real, 0::real), (1, 1)] \<noteq> []" by simp
  have h2: "\<forall>a\<in>set [0::nat]. getitem2 [[None, Some (1::real)]] 0 a = Inr None"
    by (simp add: getitem2_def getitem_def)
  show ?thesis
    using all_missing_returns_first [OF h1 h2, of "[]" "[]"] by simp
qed

subsection \<open>One AP, a reading equal to a predicted mean\<close>




subsection \<open>When the scorer raises\<close>

lemma fl_add_logpdf_Inr:
  assumes "k < length GP_index" "num < length Y_test" "GP_index ! k < length (Y_test ! num)"
    and "\<not> isnan (Y_test ! num ! (GP_index ! k)) \<Longrightarrow>
           p < length mean \<and> k < length (mean ! p) \<and> p < length var \<and> k < length (var ! p) \<and>
           (\<exists>v. var ! p ! k = Finite v \<and> 0 < v)"
  shows "\<exists>acc'. fl_add_logpdf density add64 Y_test num GP_index mean var p k acc = Inr acc'"
proof (cases "isnan (Y_test ! num ! (GP_index ! k))")
  case True
  then show ?thesis using assms(1-3) by (simp add: fl_add_logpdf_def getitem_def getitem2_def)
next
  case False
  then obtain v where "p < length mean" "k < length (mean ! p)" "p < length var"
    "k < length (var ! p)" "var ! p ! k = Finite v" "0 < v"
    using assms(4) by blast
  then show ?thesis using assms(1-3) False
    by (simp add: fl_add_logpdf_def getitem_def getitem2_def fl_math_sqrt_def fl_logpdf_def)
qed

lemma fl_sum_logpdf_Inr:
  assumes "\<forall>k\<in>set ks. \<forall>acc.
             \<exists>acc'. fl_add_logpdf density add64 Y_test num GP_index mean var p k acc = Inr acc'"
  shows "\<exists>r. fl_sum_logpdf density add64 Y_test num GP_index mean var p ks acc = Inr r"
  using assms
proof (induction ks arbitrary: acc)
  case Nil
  then show ?case by simp
next
  case (Cons k ks)
  then obtain acc' where
    "fl_add_logpdf density add64 Y_test num GP_index mean var p k acc = Inr acc'"
    by fastforce
  then show ?case using Cons by simp
qed

lemma fl_score_grid_Inr:
  assumes "\<forall>p\<in>set ps. \<forall>acc.
             \<exists>r. fl_sum_logpdf density add64 Y_test num GP_index mean var p
                    [0..<length GP_index] acc = Inr r"
  shows "\<exists>s. fl_score_grid density add64 Y_test num GP_index mean var ps = Inr s \<and>
              length s = length ps"
  using assms
proof (induction ps)
  case Nil
  then show ?case by simp
next
  case (Cons p ps)
  obtain r where "fl_sum_logpdf density add64 Y_test num GP_index mean var p
                    [0..<length GP_index] (Finite 0) = Inr r"
    using Cons.prems by fastforce
  moreover obtain s where "fl_score_grid density add64 Y_test num GP_index mean var ps = Inr s"
    "length s = length ps"
    using Cons by fastforce
  ultimately show ?case by simp
qed

lemma fl_argmax_loop_bound:
  "best < i \<Longrightarrow> fl_argmax_loop ys i best bv < i + length ys"
proof (induction ys arbitrary: i best bv)
  case Nil
  then show ?case by simp
next
  case (Cons y ys)
  have a: "fl_argmax_loop ys (Suc i) i y < Suc i + length ys" by (rule Cons.IH) simp
  have b: "fl_argmax_loop ys (Suc i) best bv < Suc i + length ys"
    using Cons.prems by (intro Cons.IH) simp
  show ?case using a b by simp
qed

lemma fl_argmax_Inr:
  assumes "xs \<noteq> []"
  shows "\<exists>i<length xs. fl_argmax xs = Inr i"
proof -
  obtain x rest where xs: "xs = x # rest" using assms by (cases xs) auto
  have "fl_argmax_loop rest 1 0 x < 1 + length rest" by (rule fl_argmax_loop_bound) simp
  then show ?thesis by (simp add: xs fl_argmax_def)
qed

text \<open>
  C7, as stated: the scorer raises nothing, whatever the arrays hold. It does raise. On
  an infinite predicted variance, the value an overflow leaves, for an AP the sample
  observes, \<open>math.sqrt\<close> returns \<open>inf\<close> and the density raises ValueError on its
  covariance; on a negative predicted variance \<open>math.sqrt\<close> itself raises ValueError.
\<close>

theorem variance_not_positive_finite_raises:
  "fl_MAP_scorer exact_density exact_plus [[Finite 0]] 0 [0] [[Finite 0]] [[PosInf]] [(0, 0)]
     = Inl ValueError \<and>
   fl_MAP_scorer exact_density exact_plus [[Finite 0]] 0 [0] [[Finite 0]] [[Finite (- 1)]] [(0, 0)]
     = Inl ValueError"
  by (simp add: fl_MAP_scorer_def fl_add_logpdf_def getitem_def getitem2_def isnan_def
        fl_math_sqrt_def fl_logpdf_def)

text \<open>
  C7, amended. On a grid with at least one point, with prediction arrays of the shape the
  notebook builds (one row per grid point, one column per fitted AP), a sample whose row
  covers the fitted AP indices, and a predicted variance that is finite and positive
  wherever the sample's reading is not NaN, the scorer raises nothing and returns a grid
  point, for every \<open>density\<close> and \<open>add64\<close>: whatever the density computation and
  the running sum overflow or underflow to (infinities, zero, NaN), and whatever the
  means and the readings are, the square root and the density never reach a branch that
  raises.
\<close>

theorem scorer_completes_on_doubles:
  assumes ne: "grid \<noteq> []"
    and num: "num < length Y_test"
    and idx: "\<forall>a\<in>set GP_index. a < length (Y_test ! num)"
    and lm: "length mean = length grid" and lv: "length var = length grid"
    and rm: "\<forall>row\<in>set mean. length row = length GP_index"
    and rv: "\<forall>row\<in>set var. length row = length GP_index"
    and pos: "\<forall>p<length grid. \<forall>k<length GP_index.
                \<not> isnan (Y_test ! num ! (GP_index ! k)) \<longrightarrow>
                (\<exists>v. var ! p ! k = Finite v \<and> 0 < v)"
  shows "\<exists>loc. fl_MAP_scorer density add64 Y_test num GP_index mean var grid = Inr loc \<and>
               loc \<in> set grid"
proof -
  have step: "\<exists>acc'. fl_add_logpdf density add64 Y_test num GP_index mean var p k acc = Inr acc'"
    if "p < length grid" "k < length GP_index" for p k acc
  proof (rule fl_add_logpdf_Inr)
    show "k < length GP_index" by (rule that(2))
    show "num < length Y_test" by (rule num)
    show "GP_index ! k < length (Y_test ! num)" using idx that(2) by simp
    assume "\<not> isnan (Y_test ! num ! (GP_index ! k))"
    then have "\<exists>v. var ! p ! k = Finite v \<and> 0 < v" using pos that by blast
    moreover have "length (mean ! p) = length GP_index" using rm lm that(1) by simp
    moreover have "length (var ! p) = length GP_index" using rv lv that(1) by simp
    ultimately show "p < length mean \<and> k < length (mean ! p) \<and> p < length var \<and>
           k < length (var ! p) \<and> (\<exists>v. var ! p ! k = Finite v \<and> 0 < v)"
      using lm lv that by simp
  qed
  have row: "\<exists>r. fl_sum_logpdf density add64 Y_test num GP_index mean var p
                    [0..<length GP_index] acc = Inr r"
    if "p < length grid" for p acc
    using step [OF that] by (intro fl_sum_logpdf_Inr) auto
  obtain s where s: "fl_score_grid density add64 Y_test num GP_index mean var [0..<length grid]
                       = Inr s" "length s = length grid"
    using fl_score_grid_Inr [of "[0..<length grid]" density add64 Y_test num GP_index mean var] row
    by auto
  have "s \<noteq> []" using s(2) ne by auto
  then obtain i where i: "i < length s" "fl_argmax s = Inr i"
    using fl_argmax_Inr by blast
  have "fl_MAP_scorer density add64 Y_test num GP_index mean var grid = Inr (grid ! i)"
    using s i by (simp add: fl_MAP_scorer_def getitem_def)
  moreover have "grid ! i \<in> set grid" using i(1) s(2) by simp
  ultimately show ?thesis by blast
qed

theorem scorer_completes_on_doubles_witness:
  "fl_MAP_scorer (\<lambda>x m c. NegInf) (\<lambda>a b. NaN) [[Finite 0, NaN]] 0 [0, 1]
     [[PosInf, NaN]] [[Finite 1, Finite (- 1)]] [(0, 0)] = Inr (0, 0)"
proof -
  have h1: "[(0::real, 0::real)] \<noteq> []" by simp
  have h2: "(0::nat) < length [[Finite 0, NaN]]" by simp
  have h3: "\<forall>a\<in>set [0, 1::nat]. a < length ([[Finite 0, NaN]] ! 0)" by simp
  have h4: "length [[PosInf, NaN]] = length [(0::real, 0::real)]" by simp
  have h5: "length [[Finite 1, Finite (- 1)]] = length [(0::real, 0::real)]" by simp
  have h6: "\<forall>row\<in>set [[PosInf, NaN]]. length row = length [0, 1::nat]" by simp
  have h7: "\<forall>row\<in>set [[Finite 1, Finite (- 1)]]. length row = length [0, 1::nat]" by simp
  have h8: "\<forall>p<length [(0::real, 0::real)]. \<forall>k<length [0, 1::nat].
              \<not> isnan ([[Finite 0, NaN]] ! 0 ! ([0, 1] ! k)) \<longrightarrow>
              (\<exists>v. [[Finite 1, Finite (- 1)]] ! p ! k = Finite v \<and> 0 < v)"
    by (simp add: less_Suc_eq numeral_2_eq_2 isnan_def)
  show ?thesis
    using scorer_completes_on_doubles [OF h1 h2 h3 h4 h5 h6 h7 h8,
        of "\<lambda>x m c. NegInf" "\<lambda>a b. NaN"]
    by auto
qed

subsection \<open>The two models of the scorer agree\<close>

lemma getitem_map: "getitem (map f xs) i = map_sum id f (getitem xs i)"
  by (simp add: getitem_def)

lemma getitem2_map: "getitem2 (map (map f) a) p k = map_sum id f (getitem2 a p k)"
  by (simp add: getitem2_def getitem_def)

lemma fl_math_sqrt_Finite: "fl_math_sqrt (Finite v) = map_sum id Finite (math_sqrt v)"
  by (simp add: fl_math_sqrt_def math_sqrt_def)

lemma fl_logpdf_exact:
  "fl_logpdf exact_density (Finite r) (Finite m) (Finite s)
     = map_sum id Finite (multivariate_normal_logpdf r m s)"
  by (simp add: fl_logpdf_def multivariate_normal_logpdf_def exact_density_def gauss_logpdf_def)

lemma fl_add_logpdf_exact:
  "fl_add_logpdf exact_density exact_plus (map (map to_float64) Y_test) num GP_index
     (map (map Finite) mean) (map (map Finite) var) p k (Finite acc)
     = map_sum id Finite (add_logpdf Y_test num GP_index mean var p k acc)"
proof (cases "getitem GP_index k")
  case (Inl e)
  then show ?thesis by (simp add: fl_add_logpdf_def add_logpdf_def)
next
  case a: (Inr a)
  show ?thesis
  proof (cases "getitem2 Y_test num a")
    case (Inl e)
    then show ?thesis using a by (simp add: fl_add_logpdf_def add_logpdf_def getitem2_map)
  next
    case rss: (Inr RSS)
    show ?thesis
    proof (cases RSS)
      case None
      then show ?thesis using a rss
        by (simp add: fl_add_logpdf_def add_logpdf_def getitem2_map to_float64_def isnan_def)
    next
      case (Some r)
      show ?thesis
      proof (cases "getitem2 mean p k")
        case (Inl e)
        then show ?thesis using a rss Some
          by (simp add: fl_add_logpdf_def add_logpdf_def getitem2_map to_float64_def isnan_def)
      next
        case m: (Inr m)
        show ?thesis
        proof (cases "getitem2 var p k")
          case (Inl e)
          then show ?thesis using a rss Some m
            by (simp add: fl_add_logpdf_def add_logpdf_def getitem2_map to_float64_def isnan_def)
        next
          case v: (Inr v)
          show ?thesis
          proof (cases "math_sqrt v")
            case (Inl e)
            then show ?thesis using a rss Some m v
              by (simp add: fl_add_logpdf_def add_logpdf_def getitem2_map to_float64_def
                    isnan_def fl_math_sqrt_Finite)
          next
            case s: (Inr s)
            show ?thesis
            proof (cases "multivariate_normal_logpdf r m s")
              case (Inl e)
              then show ?thesis using a rss Some m v s
                by (simp add: fl_add_logpdf_def add_logpdf_def getitem2_map to_float64_def
                      isnan_def fl_math_sqrt_Finite fl_logpdf_exact)
            next
              case (Inr l)
              then show ?thesis using a rss Some m v s
                by (simp add: fl_add_logpdf_def add_logpdf_def getitem2_map to_float64_def
                      isnan_def fl_math_sqrt_Finite fl_logpdf_exact exact_plus_def)
            qed
          qed
        qed
      qed
    qed
  qed
qed

lemma fl_sum_logpdf_exact:
  "fl_sum_logpdf exact_density exact_plus (map (map to_float64) Y_test) num GP_index
     (map (map Finite) mean) (map (map Finite) var) p ks (Finite acc)
     = map_sum id Finite (sum_logpdf Y_test num GP_index mean var p ks acc)"
proof (induction ks arbitrary: acc)
  case Nil
  then show ?case by simp
next
  case (Cons k ks)
  show ?case
    by (cases "add_logpdf Y_test num GP_index mean var p k acc")
       (simp_all add: fl_add_logpdf_exact Cons.IH)
qed

lemma fl_score_grid_exact:
  "fl_score_grid exact_density exact_plus (map (map to_float64) Y_test) num GP_index
     (map (map Finite) mean) (map (map Finite) var) ps
     = map_sum id (map Finite) (score_grid Y_test num GP_index mean var ps)"
proof (induction ps)
  case Nil
  then show ?case by simp
next
  case (Cons p ps)
  show ?case
    by (cases "sum_logpdf Y_test num GP_index mean var p [0..<length GP_index] 0";
        cases "score_grid Y_test num GP_index mean var ps")
       (simp_all add: fl_sum_logpdf_exact Cons.IH)
qed

lemma fl_argmax_loop_Finite:
  "fl_argmax_loop (map Finite ys) i best (Finite bv) = argmax_loop ys i best bv"
  by (induction ys arbitrary: i best bv) (simp_all add: isnan_def not_le)

lemma fl_argmax_Finite: "fl_argmax (map Finite xs) = np_argmax xs"
  by (cases xs) (simp_all add: fl_argmax_def np_argmax_def isnan_def fl_argmax_loop_Finite)

text \<open>
  On finite arrays and with the arithmetic without overflow, underflow or rounding, the
  scorer on doubles is the scorer of the real-valued sections.
\<close>

lemma fl_MAP_scorer_exact:
  "fl_MAP_scorer exact_density exact_plus (map (map to_float64) Y_test) num GP_index
     (map (map Finite) mean) (map (map Finite) var) grid
     = MAP_scorer Y_test num GP_index mean var grid"
  by (cases "score_grid Y_test num GP_index mean var [0..<length grid]")
     (simp_all add: fl_MAP_scorer_def MAP_scorer_def fl_score_grid_exact fl_argmax_Finite)

subsection \<open>The log-density as a function of the variance\<close>

text \<open>
  C4, as stated: with the reading and the mean fixed and different, a larger predicted
  variance never gives a larger log-density term. It does: with a deviation of 10, the
  term for predicted variance 16 is larger than the term for predicted variance 1.
\<close>

theorem larger_variance_larger_density:
  "add_logpdf [[Some 10]] 0 [0] [[0]] [[1]] 0 0 0 = Inr (- (ln (2 * pi) + 100) / 2) \<and>
   add_logpdf [[Some 10]] 0 [0] [[0]] [[16]] 0 0 0 = Inr (- (ln (2 * pi) + ln 4 + 25) / 2) \<and>
   - (ln (2 * pi) + 100) / 2 < - (ln (2 * pi) + ln 4 + 25) / (2::real)"
proof -
  have s16: "sqrt 16 = 4" using real_sqrt_abs [of 4] by simp
  have a: "add_logpdf [[Some 10]] 0 [0] [[0]] [[1]] 0 0 0 = Inr (- (ln (2 * pi) + 100) / 2)"
    by (simp add: add_logpdf_def getitem_def getitem2_def math_sqrt_def
          multivariate_normal_logpdf_def)
  have b: "add_logpdf [[Some 10]] 0 [0] [[0]] [[16]] 0 0 0 = Inr (- (ln (2 * pi) + ln 4 + 25) / 2)"
    by (simp add: add_logpdf_def getitem_def getitem2_def math_sqrt_def
          multivariate_normal_logpdf_def s16)
  have "ln (4::real) < 4" by (rule ln_less_self) simp
  then have c: "- (ln (2 * pi) + 100) / 2 < - (ln (2 * pi) + ln 4 + 25) / (2::real)"
    by argo
  show ?thesis using a b c by (intro conjI)
qed

text \<open>
  C4, amended. The Gaussian log-density decreases with its variance parameter once that
  parameter is at least the squared deviation: for \<open>(obs - m)\<^sup>2 \<le> c1 < c2\<close> the
  density function returns a value at both and the one at \<open>c2\<close> is at most the one at
  \<open>c1\<close>.
\<close>

theorem logpdf_decreasing_above_squared_deviation:
  assumes dev: "(obs - m)\<^sup>2 \<le> c1" and pos: "0 < c1" and lt: "c1 < c2"
  shows "\<exists>d1 d2. multivariate_normal_logpdf obs m c1 = Inr d1 \<and>
                 multivariate_normal_logpdf obs m c2 = Inr d2 \<and> d2 \<le> d1"
proof -
  have c2: "0 < c2" using pos lt by simp
  have "ln (c1 / c2) \<le> c1 / c2 - 1"
    using pos c2 by (intro ln_le_minus_one) simp
  then have ln: "1 - c1 / c2 \<le> ln c2 - ln c1"
    using pos c2 by (simp add: ln_div)
  have "(obs - m)\<^sup>2 / c1 - (obs - m)\<^sup>2 / c2 = (obs - m)\<^sup>2 * ((c2 - c1) / (c1 * c2))"
    using pos c2 by (simp add: field_simps)
  also have "\<dots> \<le> c1 * ((c2 - c1) / (c1 * c2))"
    using dev pos c2 lt by (intro mult_right_mono) simp_all
  also have "\<dots> = 1 - c1 / c2"
    using pos c2 by (simp add: field_simps)
  finally have "(obs - m)\<^sup>2 / c1 - (obs - m)\<^sup>2 / c2 \<le> ln c2 - ln c1"
    using ln by simp
  then have le: "- (ln (2 * pi) + ln c2 + (obs - m)\<^sup>2 / c2) / 2
           \<le> - (ln (2 * pi) + ln c1 + (obs - m)\<^sup>2 / c1) / 2"
    by argo
  have e1: "multivariate_normal_logpdf obs m c1
              = Inr (- (ln (2 * pi) + ln c1 + (obs - m)\<^sup>2 / c1) / 2)"
    using pos by (simp add: multivariate_normal_logpdf_def)
  have e2: "multivariate_normal_logpdf obs m c2
              = Inr (- (ln (2 * pi) + ln c2 + (obs - m)\<^sup>2 / c2) / 2)"
    using c2 by (simp add: multivariate_normal_logpdf_def)
  show ?thesis using e1 e2 le by blast
qed

theorem logpdf_decreasing_above_squared_deviation_witness:
  "\<exists>d1 d2. multivariate_normal_logpdf 3 1 4 = Inr d1 \<and>
           multivariate_normal_logpdf 3 1 9 = Inr d2 \<and> d2 \<le> d1"
proof -
  have h1: "((3::real) - 1)\<^sup>2 \<le> 4" by (simp add: power2_eq_square)
  have h2: "(0::real) < 4" by simp
  have h3: "(4::real) < 9" by simp
  show ?thesis by (rule logpdf_decreasing_above_squared_deviation [OF h1 h2 h3])
qed

section \<open>Properties of the averaging\<close>

lemma X_mean_loop_ok:
  assumes "\<forall>i\<in>set idx. i < length X_raw \<and> length (X_raw ! i) = num_AP"
  shows "X_mean_loop num_AP X_raw idx = Inr (map (\<lambda>i. map np_nanmean (X_raw ! i)) idx)"
  using assms
  by (induction idx) (simp_all add: getitem_def assign_column_def)

lemma np_nanmean_None: "np_nanmean xs = None \<longleftrightarrow> (\<forall>x\<in>set xs. x = None)"
  by (auto simp: np_nanmean_def Let_def filter_empty_conv)

text \<open>
  C5. With one array per location and one row per AP in each, the averaging cell returns
  one row per location and one entry per AP; the entry is NaN exactly when all of the
  location's readings for the AP are NaN (also when there is no scan), and otherwise it
  is the sum of the readings that are not NaN divided by their number: NaN readings take
  no part in the mean, and no value stands in for them.
\<close>

theorem X_mean_is_mean_of_observed:
  assumes "num_loc \<le> length X_raw"
    and "\<forall>i<num_loc. length (X_raw ! i) = num_AP"
  shows "\<exists>X_mean. compute_X_mean num_AP num_loc X_raw = Inr X_mean \<and>
           length X_mean = num_loc \<and>
           (\<forall>i<num_loc. length (X_mean ! i) = num_AP \<and>
              (\<forall>a<num_AP.
                 (X_mean ! i ! a = None \<longleftrightarrow> (\<forall>x\<in>set (X_raw ! i ! a). x = None)) \<and>
                 (\<forall>m. X_mean ! i ! a = Some m \<longrightarrow>
                    m = sum_list (map the (filter (\<lambda>x. x \<noteq> None) (X_raw ! i ! a)))
                        / real (length (filter (\<lambda>x. x \<noteq> None) (X_raw ! i ! a))))))"
proof -
  let ?X = "map (\<lambda>i. map np_nanmean (X_raw ! i)) [0..<num_loc]"
  have c: "compute_X_mean num_AP num_loc X_raw = Inr ?X"
    unfolding compute_X_mean_def using assms by (intro X_mean_loop_ok) simp
  have e: "?X ! i ! a = np_nanmean (X_raw ! i ! a)" if "i < num_loc" "a < num_AP" for i a
    using that assms(2) by simp
  have v: "m = sum_list (map the (filter (\<lambda>x. x \<noteq> None) xs))
                        / real (length (filter (\<lambda>x. x \<noteq> None) xs))"
    if "np_nanmean xs = Some m" for xs m
    using that by (simp add: np_nanmean_def Let_def split: if_splits)
  have "length ?X = num_loc" by simp
  moreover have "\<forall>i<num_loc. length (?X ! i) = num_AP \<and>
              (\<forall>a<num_AP.
                 (?X ! i ! a = None \<longleftrightarrow> (\<forall>x\<in>set (X_raw ! i ! a). x = None)) \<and>
                 (\<forall>m. ?X ! i ! a = Some m \<longrightarrow>
                    m = sum_list (map the (filter (\<lambda>x. x \<noteq> None) (X_raw ! i ! a)))
                        / real (length (filter (\<lambda>x. x \<noteq> None) (X_raw ! i ! a)))))"
    using assms(2) by (auto simp: np_nanmean_None dest: v)
  ultimately show ?thesis using c by blast
qed

theorem X_mean_is_mean_of_observed_witness:
  "compute_X_mean 2 1 [[[Some 1, None, Some 4], [None, None, None]]] = Inr [[Some (5 / 2), None]]"
proof -
  have h1: "(1::nat) \<le> length [[[Some (1::real), None, Some 4], [None, None, None]]]" by simp
  have h2: "\<forall>i<1. length ([[[Some (1::real), None, Some 4], [None, None, None]]] ! i) = 2"
    by simp
  obtain X_mean where
    c: "compute_X_mean 2 1 [[[Some 1, None, Some 4], [None, None, None]]] = Inr X_mean"
    and l: "length X_mean = 1"
    and p: "\<forall>i<1. length (X_mean ! i) = 2 \<and>
              (\<forall>a<2.
                 (X_mean ! i ! a = None \<longleftrightarrow>
                    (\<forall>x\<in>set ([[[Some (1::real), None, Some 4], [None, None, None]]] ! i ! a). x = None)) \<and>
                 (\<forall>m. X_mean ! i ! a = Some m \<longrightarrow>
                    m = sum_list (map the (filter (\<lambda>x. x \<noteq> None)
                          ([[[Some (1::real), None, Some 4], [None, None, None]]] ! i ! a)))
                        / real (length (filter (\<lambda>x. x \<noteq> None)
                          ([[[Some (1::real), None, Some 4], [None, None, None]]] ! i ! a)))))"
    using X_mean_is_mean_of_observed [OF h1 h2] by blast
  have l0: "length (X_mean ! 0) = 2" using p by simp
  have a0: "X_mean ! 0 ! 0 \<noteq> None" using p by (simp add: less_Suc_eq numeral_2_eq_2)
  then obtain m where m: "X_mean ! 0 ! 0 = Some m" by auto
  have "m = 5 / 2" using p m by (simp add: less_Suc_eq numeral_2_eq_2)
  moreover have "X_mean ! 0 ! 1 = None" using p by (simp add: less_Suc_eq numeral_2_eq_2)
  ultimately have "X_mean ! 0 = [Some (5 / 2), None]"
    using l0 m by (intro nth_equalityI) (auto simp: less_Suc_eq numeral_2_eq_2)
  then have "X_mean = [[Some (5 / 2), None]]"
    using l by (intro nth_equalityI) simp_all
  then show ?thesis using c by simp
qed

section \<open>Properties of the fitting loop\<close>

lemma length_mask_rows:
  "length keep = length a \<Longrightarrow> length (map fst (filter snd (zip a keep))) = length (filter id keep)"
proof (induction a arbitrary: keep)
  case Nil
  then show ?case by simp
next
  case (Cons x a)
  then obtain b keep' where "keep = b # keep'" by (cases keep) auto
  with Cons show ?case by simp
qed

lemma count_column:
  "length (filter id (map (\<lambda>y. y \<noteq> None) (map (\<lambda>row. row ! i) Y_train)))
     = length (filter (\<lambda>row. row ! i \<noteq> None) Y_train)"
  by (induction Y_train) simp_all

lemma fit_loop_ok:
  assumes "length X_train = length Y_train"
    and "\<forall>i\<in>set idx. \<forall>row\<in>set Y_train. i < length row"
  shows "\<exists>GP' GP_index'. fit_loop GPRegression X_train Y_train idx GP GP_index = Inr (GP', GP_index') \<and>
           length GP' = length GP + length (filter (\<lambda>i. 10 < length (filter (\<lambda>row. row ! i \<noteq> None) Y_train)) idx) \<and>
           GP_index' = GP_index @ filter (\<lambda>i. 10 < length (filter (\<lambda>row. row ! i \<noteq> None) Y_train)) idx"
  using assms(2)
proof (induction idx arbitrary: GP GP_index)
  case Nil
  then show ?case by simp
next
  case (Cons i idx)
  have col: "column Y_train i = Inr (map (\<lambda>row. row ! i) Y_train)"
    using Cons.prems by (simp add: column_def)
  let ?keep = "map (\<lambda>y. y \<noteq> None) (map (\<lambda>row. row ! i) Y_train)"
  have mr: "mask_rows X_train ?keep = Inr (map fst (filter snd (zip X_train ?keep)))"
    using assms(1) by (simp add: mask_rows_def)
  have len: "length (map fst (filter snd (zip X_train ?keep)))
               = length (filter (\<lambda>row. row ! i \<noteq> None) Y_train)"
    using assms(1) by (subst length_mask_rows) (simp_all only: count_column length_map)
  have rest: "\<forall>i\<in>set idx. \<forall>row\<in>set Y_train. i < length row" using Cons.prems by simp
  show ?case
  proof (cases "10 < length (filter (\<lambda>row. row ! i \<noteq> None) Y_train)")
    case True
    let ?X = "map fst (filter snd (zip X_train ?keep))"
    let ?Y = "map the (filter (\<lambda>y. y \<noteq> None) (map (\<lambda>row. row ! i) Y_train))"
    obtain GP' GP_index' where
      "fit_loop GPRegression X_train Y_train idx (GP @ [GPRegression ?X ?Y]) (GP_index @ [i])
         = Inr (GP', GP_index')"
      "length GP' = length (GP @ [GPRegression ?X ?Y])
         + length (filter (\<lambda>i. 10 < length (filter (\<lambda>row. row ! i \<noteq> None) Y_train)) idx)"
      "GP_index' = (GP_index @ [i])
         @ filter (\<lambda>i. 10 < length (filter (\<lambda>row. row ! i \<noteq> None) Y_train)) idx"
      using Cons.IH [OF rest] by blast
    then show ?thesis using True col mr len by (simp add: Let_def)
  next
    case False
    obtain GP' GP_index' where
      "fit_loop GPRegression X_train Y_train idx GP GP_index = Inr (GP', GP_index')"
      "length GP' = length GP
         + length (filter (\<lambda>i. 10 < length (filter (\<lambda>row. row ! i \<noteq> None) Y_train)) idx)"
      "GP_index' = GP_index
         @ filter (\<lambda>i. 10 < length (filter (\<lambda>row. row ! i \<noteq> None) Y_train)) idx"
      using Cons.IH [OF rest] by blast
    then show ?thesis using False col mr len by (simp add: Let_def)
  qed
qed

lemma predict_loop_length:
  "predict_loop predict GP grid = Inr cols \<Longrightarrow> length cols = length GP"
  by (induction GP arbitrary: cols) (auto simp: Let_def bind_eq_Inr split: if_splits)

lemma predict_grid_shape:
  assumes "predict_grid predict GP grid = Inr (mean, var)"
  shows "length mean = length grid \<and> length var = length grid \<and>
         (\<forall>row\<in>set mean. length row = length GP) \<and> (\<forall>row\<in>set var. length row = length GP)"
  using assms predict_loop_length [of predict GP grid]
  by (auto simp: predict_grid_def bind_eq_Inr)

lemma add_logpdf_cong:
  assumes "k < length GP_index"
    and "getitem2 Y_test' num (GP_index ! k) = getitem2 Y_test num (GP_index ! k)"
  shows "add_logpdf Y_test' num GP_index mean var p k acc
           = add_logpdf Y_test num GP_index mean var p k acc"
  using assms by (simp add: add_logpdf_def getitem_def)

lemma sum_logpdf_cong:
  assumes "\<forall>k\<in>set ks. k < length GP_index"
    and "\<forall>a\<in>set GP_index. getitem2 Y_test' num a = getitem2 Y_test num a"
  shows "sum_logpdf Y_test' num GP_index mean var p ks acc
           = sum_logpdf Y_test num GP_index mean var p ks acc"
  using assms(1)
proof (induction ks arbitrary: acc)
  case Nil
  then show ?case by simp
next
  case (Cons k ks)
  have "add_logpdf Y_test' num GP_index mean var p k acc
           = add_logpdf Y_test num GP_index mean var p k acc"
    using Cons.prems assms(2) by (intro add_logpdf_cong) simp_all
  moreover have "sum_logpdf Y_test' num GP_index mean var p ks
                   = sum_logpdf Y_test num GP_index mean var p ks"
    using Cons by (intro ext) simp
  ultimately show ?case by simp
qed

lemma score_grid_cong:
  assumes "\<forall>a\<in>set GP_index. getitem2 Y_test' num a = getitem2 Y_test num a"
  shows "score_grid Y_test' num GP_index mean var ps = score_grid Y_test num GP_index mean var ps"
proof (induction ps)
  case Nil
  then show ?case by simp
next
  case (Cons p ps)
  have "sum_logpdf Y_test' num GP_index mean var p [0..<length GP_index] 0
          = sum_logpdf Y_test num GP_index mean var p [0..<length GP_index] 0"
    using assms by (intro sum_logpdf_cong) simp_all
  then show ?case using Cons by simp
qed

lemma MAP_scorer_cong:
  assumes "\<forall>a\<in>set GP_index. getitem2 Y_test' num a = getitem2 Y_test num a"
  shows "MAP_scorer Y_test' num GP_index mean var grid = MAP_scorer Y_test num GP_index mean var grid"
  by (simp add: MAP_scorer_def score_grid_cong [OF assms])

text \<open>
  C3. On a training set with as many coordinate rows as RSS rows and \<open>num_AP\<close>
  readings per row, the fitting loop raises nothing and an AP \<open>i\<close> gets a regressor
  (is in \<open>GP_index\<close>) if and only if more than 10 training locations have an
  averaged RSS for \<open>i\<close> that is not NaN; there is one model per entry of
  \<open>GP_index\<close>. The other APs have no column in the prediction arrays, which have one
  column per fitted AP, and their readings are not read by the scorer: changing a test
  sample's readings outside \<open>GP_index\<close> does not change what the scorer returns.
\<close>

theorem regressor_iff_enough_support:
  assumes "length X_train = length Y_train"
    and "\<forall>row\<in>set Y_train. length row = num_AP"
  shows "\<exists>GP GP_index.
           fit_GPs GPRegression X_train Y_train num_AP = Inr (GP, GP_index) \<and>
           length GP = length GP_index \<and>
           (\<forall>i. i \<in> set GP_index \<longleftrightarrow>
                  i < num_AP \<and> 10 < length (filter (\<lambda>row. row ! i \<noteq> None) Y_train)) \<and>
           (\<forall>predict grid mean var. predict_grid predict GP grid = Inr (mean, var) \<longrightarrow>
              (\<forall>row\<in>set mean. length row = length GP_index) \<and>
              (\<forall>row\<in>set var. length row = length GP_index)) \<and>
           (\<forall>Y_test Y_test' num mean var grid.
              (\<forall>a\<in>set GP_index. getitem2 Y_test' num a = getitem2 Y_test num a) \<longrightarrow>
              MAP_scorer Y_test' num GP_index mean var grid
                = MAP_scorer Y_test num GP_index mean var grid)"
proof -
  let ?enough = "\<lambda>i. 10 < length (filter (\<lambda>row. row ! i \<noteq> None) Y_train)"
  have "\<forall>i\<in>set [0..<num_AP]. \<forall>row\<in>set Y_train. i < length row"
    using assms(2) by simp
  from fit_loop_ok [OF assms(1) this, of GPRegression "[]" "[]"]
  obtain GP GP_index where
    f: "fit_GPs GPRegression X_train Y_train num_AP = Inr (GP, GP_index)"
    and l: "length GP = length (filter ?enough [0..<num_AP])"
    and g: "GP_index = filter ?enough [0..<num_AP]"
    by (auto simp: fit_GPs_def)
  have "length GP = length GP_index" using l g by simp
  moreover have "\<forall>i. i \<in> set GP_index \<longleftrightarrow> i < num_AP \<and> ?enough i"
    using g by auto
  moreover have "\<forall>predict grid mean var. predict_grid predict GP grid = Inr (mean, var) \<longrightarrow>
              (\<forall>row\<in>set mean. length row = length GP_index) \<and>
              (\<forall>row\<in>set var. length row = length GP_index)"
    using predict_grid_shape \<open>length GP = length GP_index\<close> by metis
  moreover have "\<forall>Y_test Y_test' num mean var grid.
              (\<forall>a\<in>set GP_index. getitem2 Y_test' num a = getitem2 Y_test num a) \<longrightarrow>
              MAP_scorer Y_test' num GP_index mean var grid
                = MAP_scorer Y_test num GP_index mean var grid"
    using MAP_scorer_cong by blast
  ultimately show ?thesis using f by blast
qed


theorem regressor_iff_enough_support_witness:
  "\<exists>GP GP_index.
     fit_GPs (\<lambda>X Y_AP. length X) (replicate 11 (0, 0))
       (replicate 10 [Some 1, Some 1] @ [[Some 1, None]]) 2 = Inr (GP, GP_index) \<and>
     length GP = length GP_index \<and> 0 \<in> set GP_index \<and> 1 \<notin> set GP_index"
proof -
  have h1: "length (replicate 11 (0::real, 0::real))
              = length (replicate 10 [Some (1::real), Some 1] @ [[Some 1, None]])"
    by simp
  have h2: "\<forall>row\<in>set (replicate 10 [Some (1::real), Some 1] @ [[Some 1, None]]). length row = 2"
    by simp
  obtain GP :: "nat list" and GP_index where
    f: "fit_GPs (\<lambda>X Y_AP. length X) (replicate 11 (0, 0))
          (replicate 10 [Some 1, Some 1] @ [[Some 1, None]]) 2 = Inr (GP, GP_index)"
    and l: "length GP = length GP_index"
    and m: "\<forall>i. i \<in> set GP_index \<longleftrightarrow>
              i < 2 \<and> 10 < length (filter (\<lambda>row. row ! i \<noteq> None)
                                (replicate 10 [Some (1::real), Some 1] @ [[Some 1, None]]))"
    using regressor_iff_enough_support [OF h1 h2, of "\<lambda>X Y_AP. length X"] by blast
  have "0 \<in> set GP_index" using m by simp
  moreover have "1 \<notin> set GP_index" using m by simp
  ultimately show ?thesis using f l by blast
qed

section \<open>Properties of the cross-validation\<close>

subsection \<open>The folds\<close>

lemma length_test_folds: "length (test_folds current sizes) = length sizes"
  by (induction sizes arbitrary: current) simp_all

lemma map_length_test_folds: "map length (test_folds current sizes) = sizes"
  by (induction sizes arbitrary: current) simp_all

lemma concat_test_folds:
  "concat (test_folds current sizes) = [current..<current + sum_list sizes]"
proof (induction sizes arbitrary: current)
  case Nil
  then show ?case by simp
next
  case (Cons s sizes)
  have "[current..<current + s] @ [current + s..<current + s + sum_list sizes]
          = [current..<current + s + sum_list sizes]"
    using upt_add_eq_append [of current "current + s" "sum_list sizes"] by simp
  then show ?case using Cons by (simp add: add.assoc)
qed

lemma test_folds_lower:
  "f \<in> set (test_folds current sizes) \<Longrightarrow> x \<in> set f \<Longrightarrow> current \<le> x"
proof (induction sizes arbitrary: current)
  case Nil
  then show ?case by simp
next
  case (Cons s sizes)
  then show ?case by fastforce
qed

lemma test_folds_disjoint:
  "i < j \<Longrightarrow> j < length sizes \<Longrightarrow>
     set (test_folds current sizes ! i) \<inter> set (test_folds current sizes ! j) = {}"
proof (induction sizes arbitrary: current i j)
  case Nil
  then show ?case by simp
next
  case (Cons s sizes)
  obtain j' where j: "j = Suc j'" using Cons.prems(1) by (cases j) auto
  show ?case
  proof (cases i)
    case 0
    have "test_folds (current + s) sizes ! j' \<in> set (test_folds (current + s) sizes)"
      using Cons.prems(2) j by (simp add: length_test_folds)
    then have "\<forall>x\<in>set (test_folds (current + s) sizes ! j'). current + s \<le> x"
      using test_folds_lower by blast
    then show ?thesis using 0 j by fastforce
  next
    case (Suc i')
    then show ?thesis using Cons.IH [of i' j' "current + s"] Cons.prems j by simp
  qed
qed

lemma sum_list_indicator: "(\<Sum>j\<leftarrow>[0..<k]. if j < r then 1 else 0) = min r (k::nat)"
  by (induction k) auto

lemma sum_list_fold_sizes:
  assumes "0 < n_splits"
  shows "sum_list (fold_sizes n_splits n_samples) = n_samples"
proof -
  have "sum_list (fold_sizes n_splits n_samples)
          = (\<Sum>j\<leftarrow>[0..<n_splits]. n_samples div n_splits)
            + (\<Sum>j\<leftarrow>[0..<n_splits]. if j < n_samples mod n_splits then 1 else 0)"
    unfolding fold_sizes_def by (simp add: sum_list_addf)
  also have "\<dots> = n_splits * (n_samples div n_splits) + min (n_samples mod n_splits) n_splits"
    by (simp add: sum_list_indicator sum_list_triv)
  also have "\<dots> = n_samples" using assms by (simp add: min_def)
  finally show ?thesis .
qed

lemma length_filter_less: "length (filter (\<lambda>j. j < r) [0..<k]) = min r k"
  by (induction k) auto

lemma larger_folds:
  assumes "0 < n_splits"
  shows "length (filter (\<lambda>s. s = n_samples div n_splits + 1) (fold_sizes n_splits n_samples))
           = n_samples mod n_splits"
proof -
  have "filter (\<lambda>j. n_samples div n_splits + (if j < n_samples mod n_splits then 1 else 0)
                      = n_samples div n_splits + 1) [0..<n_splits]
          = filter (\<lambda>j. j < n_samples mod n_splits) [0..<n_splits]"
    by (intro filter_cong) auto
  then show ?thesis
    using assms by (simp add: fold_sizes_def filter_map o_def length_filter_less min_def)
qed

lemma fold_sizes_values:
  "s \<in> set (fold_sizes n_splits n_samples) \<Longrightarrow>
     s = n_samples div n_splits \<or> s = n_samples div n_splits + 1"
  by (auto simp: fold_sizes_def)

lemma KFold_split_folds:
  assumes "10 \<le> n"
  shows "\<exists>splits. KFold_split 10 n = Inr splits \<and> length splits = 10 \<and>
           (\<forall>s\<in>set splits. snd s \<noteq> [])"
proof -
  let ?sizes = "fold_sizes 10 n"
  let ?tests = "test_folds 0 ?sizes"
  let ?splits = "map (\<lambda>test_index. (filter (\<lambda>i. i \<notin> set test_index) [0..<n], test_index)) ?tests"
  have k: "KFold_split 10 n = Inr ?splits" using assms by (simp add: KFold_split_def)
  have len: "length ?splits = 10" by (simp add: length_test_folds fold_sizes_def)
  have pos: "\<forall>l\<in>set ?sizes. 0 < l"
    using assms by (auto simp: fold_sizes_def)
  have "\<forall>t\<in>set ?tests. t \<noteq> []"
  proof
    fix t assume "t \<in> set ?tests"
    then have "length t \<in> set (map length ?tests)" by simp
    then have "length t \<in> set ?sizes" by (simp only: map_length_test_folds)
    then show "t \<noteq> []" using pos by auto
  qed
  then have "\<forall>s\<in>set ?splits. snd s \<noteq> []" by auto
  then show ?thesis using k len by blast
qed

text \<open>
  C8. For at least 10 samples the partitioner returns exactly 10 folds; their test index
  sets are pairwise disjoint and their union is all the indices; each fold has
  \<open>n div 10\<close> or \<open>n div 10 + 1\<close> indices, and exactly \<open>n mod 10\<close> folds have the
  larger size, so the remainder is spread one index per fold. Each fold is non-empty and
  without repetition, and its training indices are the indices outside it.
\<close>

theorem KFold_partitions:
  assumes "10 \<le> n"
  shows "\<exists>splits. KFold_split 10 n = Inr splits \<and> length splits = 10 \<and>
           (\<Union>s\<in>set splits. set (snd s)) = {0..<n} \<and>
           (\<forall>i<10. \<forall>j<10. i \<noteq> j \<longrightarrow> set (snd (splits ! i)) \<inter> set (snd (splits ! j)) = {}) \<and>
           (\<forall>s\<in>set splits. length (snd s) = n div 10 \<or> length (snd s) = n div 10 + 1) \<and>
           length (filter (\<lambda>s. length (snd s) = n div 10 + 1) splits) = n mod 10 \<and>
           (\<forall>s\<in>set splits. snd s \<noteq> [] \<and> distinct (snd s) \<and> set (fst s) = {0..<n} - set (snd s))"
proof -
  let ?sizes = "fold_sizes 10 n"
  let ?tests = "test_folds 0 ?sizes"
  let ?splits = "map (\<lambda>test_index. (filter (\<lambda>i. i \<notin> set test_index) [0..<n], test_index)) ?tests"
  have k: "KFold_split 10 n = Inr ?splits" using assms by (simp add: KFold_split_def)
  have len: "length ?tests = 10" by (simp add: length_test_folds fold_sizes_def)
  have snd_splits: "map snd ?splits = ?tests" by (simp add: o_def)
  have cc: "concat ?tests = [0..<n]"
    using concat_test_folds [of 0 ?sizes] by (simp add: sum_list_fold_sizes)
  have un: "(\<Union>s\<in>set ?splits. set (snd s)) = {0..<n}"
  proof -
    have "(\<Union>s\<in>set ?splits. set (snd s)) = set (concat ?tests)" by auto
    then show ?thesis by (simp add: cc)
  qed
  have dj: "\<forall>i<10. \<forall>j<10. i \<noteq> j \<longrightarrow> set (snd (?splits ! i)) \<inter> set (snd (?splits ! j)) = {}"
  proof (intro allI impI)
    fix i j :: nat assume ij: "i < 10" "j < 10" "i \<noteq> j"
    have ls: "length ?sizes = 10" by (simp add: fold_sizes_def)
    have "set (?tests ! i) \<inter> set (?tests ! j) = {}"
    proof (cases "i < j")
      case True
      then show ?thesis using ij ls by (intro test_folds_disjoint) simp_all
    next
      case False
      then have "j < i" using ij by simp
      then have "set (?tests ! j) \<inter> set (?tests ! i) = {}"
        using ij ls by (intro test_folds_disjoint) simp_all
      then show ?thesis by blast
    qed
    then show "set (snd (?splits ! i)) \<inter> set (snd (?splits ! j)) = {}"
      using ij len by simp
  qed
  have lens: "map (\<lambda>s. length (snd s)) ?splits = ?sizes"
    using map_length_test_folds [of 0 ?sizes] by (simp add: o_def)
  have sz: "\<forall>s\<in>set ?splits. length (snd s) = n div 10 \<or> length (snd s) = n div 10 + 1"
  proof
    fix s assume "s \<in> set ?splits"
    then have "length (snd s) \<in> (\<lambda>s. length (snd s)) ` set ?splits" by (rule imageI)
    then have "length (snd s) \<in> set (map (\<lambda>s. length (snd s)) ?splits)"
      by (simp only: set_map)
    then have "length (snd s) \<in> set ?sizes" by (simp only: lens)
    then show "length (snd s) = n div 10 \<or> length (snd s) = n div 10 + 1"
      by (rule fold_sizes_values)
  qed
  have cnt: "length (filter (\<lambda>s. length (snd s) = n div 10 + 1) ?splits) = n mod 10"
  proof -
    have "length (filter (\<lambda>s. length (snd s) = n div 10 + 1) ?splits)
            = length (filter (\<lambda>l. l = n div 10 + 1) (map (\<lambda>s. length (snd s)) ?splits))"
      by (simp only: filter_map o_def length_map)
    also have "\<dots> = length (filter (\<lambda>l. l = n div 10 + 1) ?sizes)" by (simp only: lens)
    also have "\<dots> = n mod 10" by (rule larger_folds) simp
    finally show ?thesis .
  qed
  have ne: "\<forall>s\<in>set ?splits. snd s \<noteq> [] \<and> distinct (snd s) \<and> set (fst s) = {0..<n} - set (snd s)"
  proof
    fix s assume s: "s \<in> set ?splits"
    have "1 \<le> n div 10" using assms by simp
    then have "snd s \<noteq> []" using sz s by fastforce
    moreover have "distinct (concat ?tests)" by (simp add: cc)
    then have "distinct (snd s)" using s by (auto simp: distinct_concat_iff)
    moreover have "set (fst s) = {0..<n} - set (snd s)" using s by auto
    ultimately show "snd s \<noteq> [] \<and> distinct (snd s) \<and> set (fst s) = {0..<n} - set (snd s)"
      by simp
  qed
  show ?thesis using k len un dj sz cnt ne by (intro exI [of _ ?splits]) simp
qed

theorem KFold_partitions_witness:
  "\<exists>splits. KFold_split 10 23 = Inr splits \<and> length splits = 10 \<and>
     (\<Union>s\<in>set splits. set (snd s)) = {0..<23} \<and>
     length (filter (\<lambda>s. length (snd s) = 3) splits) = 3"
proof -
  have h: "(10::nat) \<le> 23" by simp
  obtain splits where "KFold_split 10 23 = Inr splits" "length splits = 10"
    "(\<Union>s\<in>set splits. set (snd s)) = {0..<23}"
    "length (filter (\<lambda>s. length (snd s) = 23 div 10 + 1) splits) = 23 mod 10"
    using KFold_partitions [OF h] by blast
  then show ?thesis by (intro exI [of _ splits]) simp
qed

subsection \<open>The reported error\<close>

lemma Y_hat_loop_length:
  "Y_hat_loop Y_test GP_index mean var grid nums = Inr Y_hat \<Longrightarrow> length Y_hat = length nums"
  by (induction nums arbitrary: Y_hat) (auto simp: bind_eq_Inr)

lemma take_rows_Inr: "take_rows a index = Inr r \<Longrightarrow> r = map (\<lambda>i. a ! i) index"
  by (simp add: take_rows_def split: if_splits)

lemma fold_Y_hat_length:
  assumes "fold_Y_hat GPRegression predict grid num_AP X y split = Inr Y_hat"
  shows "length Y_hat = length (snd split)"
proof -
  obtain X_test Y_test GP_index mean var where
    xt: "take_rows X (snd split) = Inr X_test"
    and inf: "infer_locations X_test Y_test GP_index mean var grid = Inr Y_hat"
    using assms by (auto simp: fold_Y_hat_def bind_eq_Inr)
  have "length Y_hat = length X_test"
    using inf Y_hat_loop_length by (fastforce simp: infer_locations_def)
  then show ?thesis using take_rows_Inr [OF xt] by simp
qed

lemma map_zip_index:
  "length xs = length ys \<Longrightarrow> map f (zip xs ys) = map (\<lambda>t. f (xs ! t, ys ! t)) [0..<length ys]"
  by (rule nth_equalityI) simp_all

lemma localization_errors_index:
  assumes "length Y_testing = length Y_hat"
  shows "localization_errors Y_testing Y_hat
           = map (\<lambda>t. sqrt ((fst (Y_testing ! t) - fst (Y_hat ! t))\<^sup>2
                            + (snd (Y_testing ! t) - snd (Y_hat ! t))\<^sup>2)) [0..<length Y_hat]"
  unfolding localization_errors_def by (subst map_zip_index [OF assms]) simp

lemma cv_loop_Inr:
  assumes "cv_loop GPRegression predict grid num_AP X y splits error_sum = Inr e"
  shows "\<exists>ms. length ms = length splits \<and>
           (\<forall>j<length splits.
              fold_mean_error GPRegression predict grid num_AP X y (splits ! j) = Inr (ms ! j)) \<and>
           e = foldl fadd error_sum ms"
  using assms
proof (induction splits arbitrary: error_sum)
  case Nil
  then show ?case by simp
next
  case (Cons s splits)
  obtain m where m: "fold_mean_error GPRegression predict grid num_AP X y s = Inr m"
    and r: "cv_loop GPRegression predict grid num_AP X y splits (fadd error_sum m) = Inr e"
    using Cons.prems by (auto simp: bind_eq_Inr)
  obtain ms where ms: "length ms = length splits"
    "\<forall>j<length splits.
       fold_mean_error GPRegression predict grid num_AP X y (splits ! j) = Inr (ms ! j)"
    "e = foldl fadd (fadd error_sum m) ms"
    using Cons.IH [OF r] by blast
  have "\<forall>j<length (s # splits).
          fold_mean_error GPRegression predict grid num_AP X y ((s # splits) ! j)
            = Inr ((m # ms) ! j)"
    using m ms(2) by (auto simp: nth_Cons split: nat.splits)
  then show ?case using ms(1,3) by (intro exI [of _ "m # ms"]) simp
qed

lemma foldl_fadd_Some: "foldl fadd (Some a) (map Some rs) = Some (a + sum_list rs)"
  by (induction rs arbitrary: a) (simp_all add: fadd_def add.assoc)

lemma sqrt_25: "sqrt 25 = 5"
  using real_sqrt_abs [of 5] by simp

lemma cv_run:
  "cross_validation_error (\<lambda>X Y_AP. ()) (\<lambda>m g. ([], [])) [(0, 0)] 0
     (replicate 5 (0, 0) @ replicate 5 (3, 4)) (replicate 10 []) = Inr (Some (5 / 2))"
  by (simp add: cross_validation_error_def KFold_split_def fold_sizes_def upt_conv_Cons
        fold_mean_error_def fold_Y_hat_def take_rows_def fit_GPs_def predict_grid_def
        infer_locations_def MAP_scorer_def np_argmax_def getitem_def localization_errors_def
        np_mean_def nth_append sqrt_25 fadd_def fdiv_def)

text \<open>
  C6. Whenever the cross-validation cell completes, there are exactly 10 folds, each with
  its inferred locations, one per test sample of the fold; the per-fold mean error is
  the sum over the fold's test samples of the Euclidean distance between the true and
  the inferred coordinates, divided by the number of test samples; and the reported error
  is the sum of the 10 per-fold mean errors divided by 10.
\<close>

theorem cross_validation_error_is_mean_of_fold_means:
  assumes "cross_validation_error GPRegression predict grid num_AP X y = Inr e"
  shows "\<exists>splits means.
           KFold_split 10 (length X) = Inr splits \<and> length splits = 10 \<and> length means = 10 \<and>
           (\<forall>j<10. \<exists>Y_hat.
              fold_Y_hat GPRegression predict grid num_AP X y (splits ! j) = Inr Y_hat \<and>
              length Y_hat = length (snd (splits ! j)) \<and>
              means ! j =
                (\<Sum>t\<leftarrow>[0..<length Y_hat].
                   sqrt ((fst (X ! (snd (splits ! j) ! t)) - fst (Y_hat ! t))\<^sup>2
                       + (snd (X ! (snd (splits ! j) ! t)) - snd (Y_hat ! t))\<^sup>2))
                / real (length Y_hat)) \<and>
           e = Some (sum_list means / 10)"
proof -
  obtain splits error_sum where
    k: "KFold_split 10 (length X) = Inr splits"
    and c: "cv_loop GPRegression predict grid num_AP X y splits (Some 0) = Inr error_sum"
    and e: "e = fdiv error_sum 10"
    using assms by (auto simp: cross_validation_error_def bind_eq_Inr)
  have n: "10 \<le> length X" using k by (simp add: KFold_split_def split: if_splits)
  obtain splits' where k': "KFold_split 10 (length X) = Inr splits'" "length splits' = 10"
    "\<forall>s\<in>set splits'. snd s \<noteq> []"
    using KFold_split_folds [OF n] by blast
  have len: "length splits = 10" and ne: "\<forall>s\<in>set splits. snd s \<noteq> []"
    using k k' by auto
  obtain ms where ms: "length ms = length splits"
    "\<forall>j<length splits.
       fold_mean_error GPRegression predict grid num_AP X y (splits ! j) = Inr (ms ! j)"
    "error_sum = foldl fadd (Some 0) ms"
    using cv_loop_Inr [OF c] by blast
  define fm where "fm = (\<lambda>j (Y_hat :: point list).
                (\<Sum>t\<leftarrow>[0..<length Y_hat].
                   sqrt ((fst (X ! (snd (splits ! j) ! t)) - fst (Y_hat ! t))\<^sup>2
                       + (snd (X ! (snd (splits ! j) ! t)) - snd (Y_hat ! t))\<^sup>2))
                / real (length Y_hat))"
  have fold: "\<exists>Y_hat. fold_Y_hat GPRegression predict grid num_AP X y (splits ! j) = Inr Y_hat \<and>
              length Y_hat = length (snd (splits ! j)) \<and> ms ! j = Some (fm j Y_hat)"
    if j: "j < 10" for j
  proof -
    have "fold_mean_error GPRegression predict grid num_AP X y (splits ! j) = Inr (ms ! j)"
      using ms(2) j len by simp
    then obtain Y_hat where
      yh: "fold_Y_hat GPRegression predict grid num_AP X y (splits ! j) = Inr Y_hat"
      and mj: "ms ! j = np_mean (localization_errors (map (\<lambda>i. X ! i) (snd (splits ! j))) Y_hat)"
      by (auto simp: fold_mean_error_def bind_eq_Inr)
    have ly: "length Y_hat = length (snd (splits ! j))" using yh by (rule fold_Y_hat_length)
    have "snd (splits ! j) \<noteq> []" using ne j len by simp
    then have yne: "Y_hat \<noteq> []" using ly by auto
    have le: "localization_errors (map (\<lambda>i. X ! i) (snd (splits ! j))) Y_hat
            = map (\<lambda>t. sqrt ((fst (X ! (snd (splits ! j) ! t)) - fst (Y_hat ! t))\<^sup>2
                       + (snd (X ! (snd (splits ! j) ! t)) - snd (Y_hat ! t))\<^sup>2))
                [0..<length Y_hat]"
      using ly by (subst localization_errors_index) simp_all
    have "ms ! j = Some (fm j Y_hat)"
      using yne by (simp add: mj le np_mean_def fm_def)
    then show ?thesis using yh ly by blast
  qed
  then obtain Yh where Yh: "\<forall>j<10.
      fold_Y_hat GPRegression predict grid num_AP X y (splits ! j) = Inr (Yh j) \<and>
      length (Yh j) = length (snd (splits ! j)) \<and> ms ! j = Some (fm j (Yh j))"
    by metis
  let ?means = "map (\<lambda>j. fm j (Yh j)) [0..<10]"
  have "ms = map Some ?means"
    using Yh ms(1) len by (intro nth_equalityI) simp_all
  then have "error_sum = Some (sum_list ?means)"
    using ms(3) foldl_fadd_Some [of 0 ?means] by simp
  then have ev: "e = Some (sum_list ?means / 10)" using e by (simp add: fdiv_def)
  have "\<forall>j<10. \<exists>Y_hat.
              fold_Y_hat GPRegression predict grid num_AP X y (splits ! j) = Inr Y_hat \<and>
              length Y_hat = length (snd (splits ! j)) \<and> ?means ! j = fm j Y_hat"
    using Yh by auto
  then have "\<forall>j<10. \<exists>Y_hat.
              fold_Y_hat GPRegression predict grid num_AP X y (splits ! j) = Inr Y_hat \<and>
              length Y_hat = length (snd (splits ! j)) \<and>
              ?means ! j =
                (\<Sum>t\<leftarrow>[0..<length Y_hat].
                   sqrt ((fst (X ! (snd (splits ! j) ! t)) - fst (Y_hat ! t))\<^sup>2
                       + (snd (X ! (snd (splits ! j) ! t)) - snd (Y_hat ! t))\<^sup>2))
                / real (length Y_hat)"
    by (simp only: fm_def)
  moreover have "length ?means = 10" by simp
  ultimately show ?thesis
    using k len ev by blast
qed

theorem cross_validation_error_is_mean_of_fold_means_witness:
  "cross_validation_error (\<lambda>X Y_AP. ()) (\<lambda>m g. ([], [])) [(0, 0)] 0
     (replicate 5 (0, 0) @ replicate 5 (3, 4)) (replicate 10 []) = Inr (Some (5 / 2)) \<and>
   (\<exists>splits means. KFold_split 10 10 = Inr splits \<and> length splits = 10 \<and>
      length means = 10 \<and> Some (5 / 2 :: real) = Some (sum_list means / 10))"
proof -
  have h: "cross_validation_error (\<lambda>X Y_AP. ()) (\<lambda>m g. ([], [])) [(0, 0)] 0
     (replicate 5 (0, 0) @ replicate 5 (3, 4)) (replicate 10 []) = Inr (Some (5 / 2))"
    by (rule cv_run)
  obtain splits and means :: "real list" where "KFold_split 10 (length (replicate 5 (0::real, 0::real) @ replicate 5 (3, 4))) = Inr splits"
    "length splits = 10" "length means = 10" "Some (5 / 2 :: real) = Some (sum_list means / 10)"
    using cross_validation_error_is_mean_of_fold_means [OF h] by blast
  then show ?thesis using h by (intro conjI exI [of _ splits] exI [of _ means]) simp_all
qed

section \<open>Properties of the search grid\<close>

lemma np_amin_Inr: "np_amin xs = Inr m \<Longrightarrow> xs \<noteq> [] \<and> m = Min (set xs)"
  using Min.set_eq_fold [of "hd xs" "tl xs"] by (cases xs) (auto simp: np_amin_def)

lemma np_amax_Inr: "np_amax xs = Inr m \<Longrightarrow> xs \<noteq> [] \<and> m = Max (set xs)"
  using Max.set_eq_fold [of "hd xs" "tl xs"] by (cases xs) (auto simp: np_amax_def)

lemma Min_le_Max_list: "xs \<noteq> [] \<Longrightarrow> Min (set xs) \<le> (Max (set xs) :: real)"
proof -
  assume "xs \<noteq> []"
  then have "hd xs \<in> set xs" by simp
  then have "Min (set xs) \<le> hd xs" "hd xs \<le> Max (set xs)" by simp_all
  then show ?thesis by (rule order_trans)
qed

lemma length_np_linspace: "length (np_linspace start stop num) = num"
  by (simp add: np_linspace_def)

lemma np_linspace_bounds:
  assumes "start \<le> stop" "x \<in> set (np_linspace start stop num)"
  shows "start \<le> x \<and> x \<le> stop"
proof -
  obtain i where i: "i < num" "x = start + real i * ((stop - start) / real (num - 1))"
    using assms(2) by (auto simp: np_linspace_def)
  have d: "0 \<le> stop - start" using assms(1) by simp
  have lo: "0 \<le> real i * ((stop - start) / real (num - 1))"
    using d by simp
  have "real i \<le> real (num - 1)" using i(1) by simp
  then have "real i * ((stop - start) / real (num - 1))
               \<le> real (num - 1) * ((stop - start) / real (num - 1))"
    using d by (intro mult_right_mono) simp_all
  also have "\<dots> \<le> stop - start"
    using d by (cases "num - 1 = 0") simp_all
  finally have "real i * ((stop - start) / real (num - 1)) \<le> stop - start" .
  then show ?thesis using lo i(2) by simp
qed

lemma np_linspace_first: "0 < num \<Longrightarrow> np_linspace start stop num ! 0 = start"
  by (simp add: np_linspace_def)

lemma np_linspace_last: "1 < num \<Longrightarrow> np_linspace start stop num ! (num - 1) = stop"
  by (simp add: np_linspace_def)

lemma zip_mesh:
  "zip (concat (map (\<lambda>y. xs) ys)) (concat (map (\<lambda>y. map (\<lambda>x. y) xs) ys))
     = concat (map (\<lambda>y. map (\<lambda>x. (x, y)) xs) ys)"
proof (induction ys)
  case Nil
  then show ?case by simp
next
  case (Cons y ys)
  have "zip xs (map (\<lambda>x. y) xs) = map (\<lambda>x. (x, y)) xs"
    by (induction xs) simp_all
  then show ?case using Cons by (simp add: zip_append)
qed

lemma make_grid_eq:
  "make_grid min_X min_Y max_X max_Y
     = concat (map (\<lambda>y. map (\<lambda>x. (x, y)) (np_linspace min_X max_X N)) (np_linspace min_Y max_Y N))"
  by (simp add: make_grid_def np_meshgrid_def Let_def zip_mesh)

lemma set_make_grid:
  "set (make_grid min_X min_Y max_X max_Y)
     = set (np_linspace min_X max_X N) \<times> set (np_linspace min_Y max_Y N)"
  by (auto simp: make_grid_eq)

lemma length_concat_const:
  "length (concat (map (\<lambda>y. map (f y) xs) ys)) = length ys * length xs"
  by (induction ys) simp_all

lemma length_make_grid: "length (make_grid min_X min_Y max_X max_Y) = N * N"
  by (simp add: make_grid_eq length_concat_const length_np_linspace)

lemma make_grid_first: "make_grid min_X min_Y max_X max_Y ! 0 = (min_X, min_Y)"
proof -
  have "np_linspace min_X max_X N = min_X # tl (np_linspace min_X max_X N)"
    by (simp add: np_linspace_def N_def upt_conv_Cons)
  moreover have "np_linspace min_Y max_Y N = min_Y # tl (np_linspace min_Y max_Y N)"
    by (simp add: np_linspace_def N_def upt_conv_Cons)
  ultimately have "\<exists>rest. make_grid min_X min_Y max_X max_Y = (min_X, min_Y) # rest"
    unfolding make_grid_eq by (metis (no_types, lifting) append_Cons concat.simps(2) list.simps(9))
  then show ?thesis by auto
qed

lemma corner_in_linspace:
  "start \<in> set (np_linspace start stop N) \<and> stop \<in> set (np_linspace start stop N)"
proof -
  have "np_linspace start stop N ! 0 \<in> set (np_linspace start stop N)"
    by (intro nth_mem) (simp add: length_np_linspace N_def)
  moreover have "np_linspace start stop N ! (N - 1) \<in> set (np_linspace start stop N)"
    by (intro nth_mem) (simp add: length_np_linspace N_def)
  ultimately show ?thesis
    using np_linspace_first [of N start stop] np_linspace_last [of N start stop]
    by (simp add: N_def)
qed

lemma search_grid_Inr:
  assumes "search_grid Y = Inr grid"
  shows "Y ! 0 \<noteq> [] \<and> Y ! 1 \<noteq> [] \<and>
         grid = make_grid (Min (set (Y ! 0))) (Min (set (Y ! 1))) (Max (set (Y ! 0))) (Max (set (Y ! 1)))"
  using assms
  by (auto simp: search_grid_def bind_eq_Inr getitem_def split: if_splits
        dest!: np_amin_Inr np_amax_Inr)

text \<open>
  C10. The grid has 50 times 50 points. Every grid point lies in the bounding box of the
  surveyed coordinates (between the least and the greatest surveyed x, and between the
  least and the greatest surveyed y), and the four corners of that box are grid points.
  Whatever the scorer returns is a point of the grid, so its coordinates lie within the
  same bounds.
\<close>

theorem inferred_location_in_bounding_box:
  assumes sg: "search_grid Y = Inr grid"
    and sc: "MAP_scorer Y_test num GP_index mean var grid = Inr loc"
  shows "length grid = 50 * 50 \<and>
         (\<forall>pt\<in>set grid. Min (set (Y ! 0)) \<le> fst pt \<and> fst pt \<le> Max (set (Y ! 0)) \<and>
                         Min (set (Y ! 1)) \<le> snd pt \<and> snd pt \<le> Max (set (Y ! 1))) \<and>
         (Min (set (Y ! 0)), Min (set (Y ! 1))) \<in> set grid \<and>
         (Max (set (Y ! 0)), Min (set (Y ! 1))) \<in> set grid \<and>
         (Min (set (Y ! 0)), Max (set (Y ! 1))) \<in> set grid \<and>
         (Max (set (Y ! 0)), Max (set (Y ! 1))) \<in> set grid \<and>
         loc \<in> set grid \<and>
         Min (set (Y ! 0)) \<le> fst loc \<and> fst loc \<le> Max (set (Y ! 0)) \<and>
         Min (set (Y ! 1)) \<le> snd loc \<and> snd loc \<le> Max (set (Y ! 1))"
proof -
  let ?x0 = "Min (set (Y ! 0))" and ?x1 = "Max (set (Y ! 0))"
  let ?y0 = "Min (set (Y ! 1))" and ?y1 = "Max (set (Y ! 1))"
  have ne: "Y ! 0 \<noteq> []" "Y ! 1 \<noteq> []" and g: "grid = make_grid ?x0 ?y0 ?x1 ?y1"
    using search_grid_Inr [OF sg] by simp_all
  have x: "?x0 \<le> ?x1" using ne(1) by (rule Min_le_Max_list)
  have y: "?y0 \<le> ?y1" using ne(2) by (rule Min_le_Max_list)
  have box: "\<forall>pt\<in>set grid. ?x0 \<le> fst pt \<and> fst pt \<le> ?x1 \<and> ?y0 \<le> snd pt \<and> snd pt \<le> ?y1"
    using np_linspace_bounds [OF x] np_linspace_bounds [OF y]
    by (auto simp: g set_make_grid)
  have corners: "(?x0, ?y0) \<in> set grid" "(?x1, ?y0) \<in> set grid"
    "(?x0, ?y1) \<in> set grid" "(?x1, ?y1) \<in> set grid"
    using corner_in_linspace [of ?x0 ?x1] corner_in_linspace [of ?y0 ?y1]
    by (simp_all add: g set_make_grid)
  have loc: "loc \<in> set grid" using sc by (rule MAP_scorer_in_grid)
  have "length grid = 50 * 50" by (simp add: g length_make_grid N_def)
  then show ?thesis using box corners loc by simp
qed


theorem inferred_location_in_bounding_box_witness:
  "search_grid [[0, 2], [1, 5]] = Inr (make_grid 0 1 2 5) \<and>
   MAP_scorer [] 0 [] [] [] (make_grid 0 1 2 5) = Inr (0, 1) \<and>
   length (make_grid 0 1 2 5) = 50 * 50 \<and>
   (0, 1) \<in> set (make_grid 0 1 2 5) \<and> (2, 5) \<in> set (make_grid 0 1 2 5)"
proof -
  have h1: "search_grid [[0, 2], [1, 5]] = Inr (make_grid 0 1 2 5)"
    by (simp add: search_grid_def getitem_def np_amin_def np_amax_def)
  have ne: "make_grid 0 1 2 5 \<noteq> []"
    using length_make_grid [of 0 1 2 5] by (auto simp: N_def)
  have "MAP_scorer [] 0 [] [] [] (make_grid 0 1 2 5) = Inr (make_grid 0 1 2 5 ! 0)"
    using ne by (intro MAP_scorer_at) (simp_all add: grid_score_def)
  then have h2: "MAP_scorer [] 0 [] [] [] (make_grid 0 1 2 5) = Inr (0, 1)"
    by (simp add: make_grid_first)
  show ?thesis
    using inferred_location_in_bounding_box [OF h1 h2] h1 h2 by simp
qed

end
